theory Spec2Isabelle
  imports Main "HOL-Library.Word"
begin

section \<open>JavaScript strings, values and exceptions\<close>

text \<open>
  A JavaScript string is a sequence of 16-bit code units. The source tests strings for
  emptiness, compares them, concatenates them and trims them, all of which act on code
  units, so the model keeps them as lists of 16-bit words. \<open>ascii\<close> embeds the string
  literals of the source.
\<close>

type_synonym code_unit = "16 word"
type_synonym jsstring = "code_unit list"

definition ascii :: "string \<Rightarrow> jsstring" where
  "ascii s = map (\<lambda>c. word_of_nat (of_char c)) s"

text \<open>
  The values a caller can hand to the provider. Numbers are a type parameter: the
  provider never inspects a number, only the platform's JSON codec does.
\<close>

datatype 'n jsval =
    JUndefined
  | JNull
  | JBool bool
  | JNum 'n
  | JStr jsstring
  | JArr "'n jsval list"
  | JObj "(jsstring \<times> 'n jsval) list"

datatype exn =
    Error
  | TypeError
  | ReferenceError
  | SyntaxError
  | SecurityError
  | QuotaExceededError

subsection \<open>\<open>String.prototype.trim\<close>\<close>

text \<open>
  \<open>trim\<close> removes the code units of the ECMAScript productions WhiteSpace and
  LineTerminator from both ends of a string.
\<close>

definition WhiteSpace :: "code_unit \<Rightarrow> bool" where
  "WhiteSpace c \<longleftrightarrow>
     c = 0x0009 \<or> c = 0x000B \<or> c = 0x000C \<or> c = 0xFEFF
     \<or> c = 0x0020 \<or> c = 0x00A0 \<or> c = 0x1680 \<or> (0x2000 \<le> c \<and> c \<le> 0x200A)
     \<or> c = 0x202F \<or> c = 0x205F \<or> c = 0x3000"

definition LineTerminator :: "code_unit \<Rightarrow> bool" where
  "LineTerminator c \<longleftrightarrow> c = 0x000A \<or> c = 0x000D \<or> c = 0x2028 \<or> c = 0x2029"

definition blank :: "code_unit \<Rightarrow> bool" where
  "blank c \<longleftrightarrow> WhiteSpace c \<or> LineTerminator c"

definition trim :: "jsstring \<Rightarrow> jsstring" where
  "trim s = rev (dropWhile blank (rev (dropWhile blank s)))"

section \<open>The platform\<close>

text \<open>
  \<open>JSON.stringify\<close> and \<open>JSON.parse\<close> belong to the JavaScript engine, not to the
  repository, so they are parameters of the model. \<open>JSON.stringify\<close> returns a string,
  returns \<open>undefined\<close> (\<open>Inr None\<close>: for \<open>undefined\<close>, functions and symbols) or throws;
  \<open>JSON.parse\<close> returns a value or throws.
\<close>

record 'n platform =
  JSON_stringify :: "'n jsval \<Rightarrow> exn + jsstring option"
  JSON_parse :: "jsstring \<Rightarrow> exn + 'n jsval"

text \<open>
  A Web Storage object holds string items. \<open>setItem\<close> throws when the user agent refuses
  the write (quota exhausted, storage disabled); whether it does may depend on what is
  stored already, so the refusal is a predicate on the items, the key and the value.
  \<open>getItem\<close> and \<open>removeItem\<close> do not throw.
\<close>

record web_storage =
  items :: "jsstring \<rightharpoonup> jsstring"
  setItem_throws :: "(jsstring \<rightharpoonup> jsstring) \<Rightarrow> jsstring \<Rightarrow> jsstring \<Rightarrow> bool"

datatype web_kind = Local | Session

text \<open>
  What evaluating \<open>window.localStorage\<close> or \<open>window.sessionStorage\<close> does: the getter
  throws a SecurityError when the user agent denies the document access to storage, the
  property is \<open>undefined\<close> where a \<open>window\<close> exists without Web Storage, and otherwise
  it is the Storage object.
\<close>

datatype property_read = Getter_throws | Is_undefined | Is_Storage

record world =
  has_window :: bool
  window_property :: "web_kind \<Rightarrow> property_read"
  storage :: "web_kind \<Rightarrow> web_storage"

definition getItem :: "world \<Rightarrow> web_kind \<Rightarrow> jsstring \<Rightarrow> jsstring option" where
  "getItem w kind key = items (storage w kind) key"

definition setItem :: "world \<Rightarrow> web_kind \<Rightarrow> jsstring \<Rightarrow> jsstring \<Rightarrow> exn + world" where
  "setItem w kind key raw =
     (let s = storage w kind in
      if setItem_throws s (items s) key raw then Inl QuotaExceededError
      else Inr (w\<lparr>storage := (storage w)(kind := s\<lparr>items := (items s)(key \<mapsto> raw)\<rparr>)\<rparr>))"

definition removeItem :: "world \<Rightarrow> web_kind \<Rightarrow> jsstring \<Rightarrow> world" where
  "removeItem w kind key =
     (let s = storage w kind in
      w\<lparr>storage := (storage w)(kind := s\<lparr>items := (items s)(key := None)\<rparr>)\<rparr>)"

section \<open>StoreProvider\<close>

datatype StoreType = Memory | LocalStorage | SessionStorage

text \<open>
  The object \<open>#currentStorage\<close> refers to: nothing yet, the provider's own \<open>Map\<close>, or one
  of the window's Storage objects. A \<open>Map\<close> entry can hold \<open>undefined\<close> (\<open>Some None\<close>),
  because \<open>setValue\<close> stores whatever \<open>JSON.stringify\<close> returned. The \<open>Map\<close> is held by
  value: nothing outside the provider has a reference to it. A Storage object lives in
  the world and is shared by every provider that refers to it.
\<close>

datatype storage_obj =
    UndefinedObj
  | MapObj "jsstring \<rightharpoonup> jsstring option"
  | StorageObj web_kind

record StoreProvider =
  storeType :: StoreType
  prefix :: jsstring
  isServer :: bool
  currentStorage :: storage_obj

record 'n StoreProviderOptions =
  storeType_opt :: "'n jsval"
  prefix_opt :: "'n jsval"

subsection \<open>Construction\<close>

text \<open>A destructuring default applies exactly when the property is \<open>undefined\<close>.\<close>

definition default_to :: "'n jsval \<Rightarrow> 'n jsval \<Rightarrow> 'n jsval" where
  "default_to d v = (if v = JUndefined then d else v)"

text \<open>The \<open>includes\<close> test of the constructor, with the recognised value it found.\<close>

definition as_StoreType :: "'n jsval \<Rightarrow> StoreType option" where
  "as_StoreType v =
     (if v = JStr (ascii ''memory'') then Some Memory
      else if v = JStr (ascii ''localStorage'') then Some LocalStorage
      else if v = JStr (ascii ''sessionStorage'') then Some SessionStorage
      else None)"

definition read_window :: "world \<Rightarrow> web_kind \<Rightarrow> exn + storage_obj" where
  "read_window w kind =
     (if \<not> has_window w then Inl ReferenceError
      else case window_property w kind of
             Getter_throws \<Rightarrow> Inl SecurityError
           | Is_undefined \<Rightarrow> Inr UndefinedObj
           | Is_Storage \<Rightarrow> Inr (StorageObj kind))"

fun STORAGE_FACTORIES :: "world \<Rightarrow> StoreType \<Rightarrow> exn + storage_obj" where
  "STORAGE_FACTORIES w Memory = Inr (MapObj Map.empty)"
| "STORAGE_FACTORIES w LocalStorage = read_window w Local"
| "STORAGE_FACTORIES w SessionStorage = read_window w Session"

text \<open>
  The probe. Any exception inside the \<open>try\<close> block gives \<open>false\<close>: the refusal of the
  write, or the TypeError of calling \<open>setItem\<close> on something that has no such method.
\<close>

fun canUseWebStorage :: "world \<Rightarrow> storage_obj \<Rightarrow> bool \<times> world" where
  "canUseWebStorage w (StorageObj kind) =
     (case setItem w kind (ascii ''__ws_test__'') (ascii ''1'') of
        Inl e \<Rightarrow> (False, w)
      | Inr w' \<Rightarrow> (True, removeItem w' kind (ascii ''__ws_test__'')))"
| "canUseWebStorage w UndefinedObj = (False, w)"
| "canUseWebStorage w (MapObj m) = (False, w)"

text \<open>
  \<open>#initStorage\<close>. The test \<open>if (!factory) throw\<close> of the source cannot fire: the table
  has an entry for each of the three store types, which are all that the type
  \<open>StoreType\<close> holds.
\<close>

definition initStorage :: "world \<Rightarrow> StoreProvider \<Rightarrow> exn + StoreProvider \<times> world" where
  "initStorage w p =
     (let p1 = (if isServer p \<and> storeType p \<noteq> Memory then p\<lparr>storeType := Memory\<rparr> else p)
      in case STORAGE_FACTORIES w (storeType p1) of
           Inl e \<Rightarrow> Inl e
         | Inr obj \<Rightarrow>
             (let p2 = p1\<lparr>currentStorage := obj\<rparr>
              in if storeType p2 \<noteq> Memory then
                   (case canUseWebStorage w obj of
                      (True, w') \<Rightarrow> Inr (p2, w')
                    | (False, w') \<Rightarrow>
                        (case STORAGE_FACTORIES w' Memory of
                           Inl e \<Rightarrow> Inl e
                         | Inr m \<Rightarrow> Inr (p2\<lparr>storeType := Memory, currentStorage := m\<rparr>, w')))
                 else Inr (p2, w)))"

text \<open>
  The constructor. \<open>#store = #adaptStorage()\<close> builds three closures over
  \<open>#storeType\<close> and \<open>#currentStorage\<close>; neither field is assigned after construction,
  so the closures are the functions \<open>getRaw\<close>, \<open>setRaw\<close> and \<open>remove\<close> of the provider
  below.
\<close>

definition constructor ::
  "world \<Rightarrow> 'n StoreProviderOptions \<Rightarrow> exn + StoreProvider \<times> world" where
  "constructor w opts =
     (let st = default_to (JStr (ascii ''localStorage'')) (storeType_opt opts);
          pf = default_to (JStr (ascii ''test-app'')) (prefix_opt opts)
      in case as_StoreType st of
           None \<Rightarrow> Inl Error
         | Some t \<Rightarrow>
             (case pf of
                JStr s \<Rightarrow>
                  initStorage w
                    \<lparr>storeType = t, prefix = trim s, isServer = \<not> has_window w,
                     currentStorage = UndefinedObj\<rparr>
              | _ \<Rightarrow> Inl TypeError))"

subsection \<open>Keys and encoding\<close>

text \<open>\<open>#getKey\<close>: \<open>None\<close> is the call without a key; \<open>!key\<close> also holds of the empty string.\<close>

definition getKey :: "StoreProvider \<Rightarrow> jsstring option \<Rightarrow> jsstring" where
  "getKey p key =
     (case key of
        None \<Rightarrow> prefix p
      | Some k \<Rightarrow>
          if k = [] then prefix p
          else if prefix p \<noteq> [] then prefix p @ ascii '':'' @ k else k)"

definition serialize :: "'n platform \<Rightarrow> 'n jsval \<Rightarrow> exn + jsstring option" where
  "serialize P v = JSON_stringify P v"

definition deserialize :: "'n platform \<Rightarrow> jsstring option \<Rightarrow> 'n jsval" where
  "deserialize P raw =
     (case raw of
        None \<Rightarrow> JNull
      | Some r \<Rightarrow> (case JSON_parse P r of Inr v \<Rightarrow> v | Inl e \<Rightarrow> JStr r))"

subsection \<open>The adapter\<close>

text \<open>
  \<open>#adaptStorage\<close> branches on \<open>#storeType\<close> and casts \<open>#currentStorage\<close> without a
  check; calling a method the object does not have is a TypeError. \<open>m.get(key) ?? null\<close>
  is \<open>null\<close> for a missing entry and for an entry holding \<open>undefined\<close>. \<open>setItem\<close>
  converts its argument to a string, so \<open>undefined\<close> is stored as the text
  \<open>undefined\<close>.
\<close>

definition getRaw :: "StoreProvider \<Rightarrow> world \<Rightarrow> jsstring \<Rightarrow> exn + jsstring option" where
  "getRaw p w key =
     (if storeType p = Memory then
        (case currentStorage p of
           MapObj m \<Rightarrow> Inr (case m key of Some (Some raw) \<Rightarrow> Some raw | _ \<Rightarrow> None)
         | _ \<Rightarrow> Inl TypeError)
      else
        (case currentStorage p of
           StorageObj kind \<Rightarrow> Inr (getItem w kind key)
         | _ \<Rightarrow> Inl TypeError))"

definition setRaw ::
  "StoreProvider \<Rightarrow> world \<Rightarrow> jsstring \<Rightarrow> jsstring option \<Rightarrow> exn + StoreProvider \<times> world" where
  "setRaw p w key raw =
     (if storeType p = Memory then
        (case currentStorage p of
           MapObj m \<Rightarrow> Inr (p\<lparr>currentStorage := MapObj (m(key \<mapsto> raw))\<rparr>, w)
         | _ \<Rightarrow> Inl TypeError)
      else
        (case currentStorage p of
           StorageObj kind \<Rightarrow>
             (case setItem w kind key (case raw of None \<Rightarrow> ascii ''undefined'' | Some r \<Rightarrow> r) of
                Inl e \<Rightarrow> Inl e
              | Inr w' \<Rightarrow> Inr (p, w'))
         | _ \<Rightarrow> Inl TypeError))"

definition remove :: "StoreProvider \<Rightarrow> world \<Rightarrow> jsstring \<Rightarrow> exn + StoreProvider \<times> world" where
  "remove p w key =
     (if storeType p = Memory then
        (case currentStorage p of
           MapObj m \<Rightarrow> Inr (p\<lparr>currentStorage := MapObj (m(key := None))\<rparr>, w)
         | _ \<Rightarrow> Inl TypeError)
      else
        (case currentStorage p of
           StorageObj kind \<Rightarrow> Inr (p, removeItem w kind key)
         | _ \<Rightarrow> Inl TypeError))"

subsection \<open>The public operations\<close>

text \<open>
  Each operation takes the provider and the world and returns them as it leaves them,
  or the exception it throws. The key is derived before the value is serialised.
\<close>

definition setValue ::
  "'n platform \<Rightarrow> StoreProvider \<Rightarrow> world \<Rightarrow> jsstring \<Rightarrow> 'n jsval \<Rightarrow> exn + StoreProvider \<times> world" where
  "setValue P p w key v =
     (let storeKey = getKey p (Some key)
      in case serialize P v of
           Inl e \<Rightarrow> Inl e
         | Inr raw \<Rightarrow> setRaw p w storeKey raw)"

definition getValue ::
  "'n platform \<Rightarrow> StoreProvider \<Rightarrow> world \<Rightarrow> jsstring \<Rightarrow> exn + 'n jsval \<times> StoreProvider \<times> world" where
  "getValue P p w key =
     (let storeKey = getKey p (Some key)
      in case getRaw p w storeKey of
           Inl e \<Rightarrow> Inl e
         | Inr raw \<Rightarrow> Inr (deserialize P raw, p, w))"

definition removeValue ::
  "StoreProvider \<Rightarrow> world \<Rightarrow> jsstring \<Rightarrow> exn + StoreProvider \<times> world" where
  "removeValue p w key = remove p w (getKey p (Some key))"

section \<open>A JSON codec for the platform\<close>

text \<open>
  An instance of the platform, used to run the provider on concrete values. It follows
  the ECMAScript algorithms \<open>SerializeJSONProperty\<close>, \<open>QuoteJSONString\<close> and the
  JSON grammar on the values whose numbers are integers: \<open>JNum i\<close> stands for the
  integer-valued number \<open>i\<close>, and the list of a \<open>JObj\<close> gives the properties in the
  order the object enumerates them. Number literals with a fraction or an exponent denote
  numbers this instance cannot hold; it rejects them, which the engine does not, so the
  instance is only run on texts without such literals. The parser recurses on a fuel
  argument and fails when the fuel runs out; \<open>ecma_parse\<close> gives it more than twice
  the length of the text.
\<close>

definition hex_digit :: "nat \<Rightarrow> code_unit" where
  "hex_digit d = (if d < 10 then word_of_nat (48 + d) else word_of_nat (87 + d))"

definition hex4 :: "code_unit \<Rightarrow> jsstring" where
  "hex4 c =
     (let n = unat c
      in [hex_digit (n div 4096), hex_digit (n div 256 mod 16),
          hex_digit (n div 16 mod 16), hex_digit (n mod 16)])"

definition escape_unit :: "code_unit \<Rightarrow> jsstring" where
  "escape_unit c =
     (if c = 0x08 then [0x5C, 0x62]
      else if c = 0x09 then [0x5C, 0x74]
      else if c = 0x0A then [0x5C, 0x6E]
      else if c = 0x0C then [0x5C, 0x66]
      else if c = 0x0D then [0x5C, 0x72]
      else if c = 0x22 then [0x5C, 0x22]
      else if c = 0x5C then [0x5C, 0x5C]
      else if c < 0x20 \<or> (0xD800 \<le> c \<and> c \<le> 0xDFFF) then [0x5C, 0x75] @ hex4 c
      else [c])"

fun quote_units :: "jsstring \<Rightarrow> jsstring" where
  "quote_units [] = []"
| "quote_units [c] = escape_unit c"
| "quote_units (c # d # cs) =
     (if 0xD800 \<le> c \<and> c \<le> 0xDBFF \<and> 0xDC00 \<le> d \<and> d \<le> 0xDFFF
      then c # d # quote_units cs
      else escape_unit c @ quote_units (d # cs))"

definition QuoteJSONString :: "jsstring \<Rightarrow> jsstring" where
  "QuoteJSONString s = 0x22 # quote_units s @ [0x22]"

fun digits :: "nat \<Rightarrow> jsstring" where
  "digits n =
     (if n < 10 then [word_of_nat (48 + n)]
      else digits (n div 10) @ [word_of_nat (48 + n mod 10)])"

declare digits.simps [simp del]

definition Number_toString :: "int \<Rightarrow> jsstring" where
  "Number_toString i = (if i < 0 then 0x2D # digits (nat (- i)) else digits (nat i))"

fun join :: "jsstring \<Rightarrow> jsstring list \<Rightarrow> jsstring" where
  "join sep [] = []"
| "join sep [x] = x"
| "join sep (x # y # ys) = x @ sep @ join sep (y # ys)"

fun SerializeJSONProperty :: "int jsval \<Rightarrow> jsstring option"
  and SerializeJSONArray :: "int jsval list \<Rightarrow> jsstring list"
  and SerializeJSONObject :: "(jsstring \<times> int jsval) list \<Rightarrow> jsstring list" where
  "SerializeJSONProperty JUndefined = None"
| "SerializeJSONProperty JNull = Some (ascii ''null'')"
| "SerializeJSONProperty (JBool b) = Some (if b then ascii ''true'' else ascii ''false'')"
| "SerializeJSONProperty (JNum i) = Some (Number_toString i)"
| "SerializeJSONProperty (JStr s) = Some (QuoteJSONString s)"
| "SerializeJSONProperty (JArr vs) = Some ([0x5B] @ join [0x2C] (SerializeJSONArray vs) @ [0x5D])"
| "SerializeJSONProperty (JObj kvs) = Some ([0x7B] @ join [0x2C] (SerializeJSONObject kvs) @ [0x7D])"
| "SerializeJSONArray [] = []"
| "SerializeJSONArray (v # vs) =
     (case SerializeJSONProperty v of None \<Rightarrow> ascii ''null'' | Some s \<Rightarrow> s)
       # SerializeJSONArray vs"
| "SerializeJSONObject [] = []"
| "SerializeJSONObject ((k, v) # kvs) =
     (case SerializeJSONProperty v of
        None \<Rightarrow> SerializeJSONObject kvs
      | Some s \<Rightarrow> (QuoteJSONString k @ [0x3A] @ s) # SerializeJSONObject kvs)"

definition json_ws :: "code_unit \<Rightarrow> bool" where
  "json_ws c \<longleftrightarrow> c = 0x09 \<or> c = 0x0A \<or> c = 0x0D \<or> c = 0x20"

definition skip_ws :: "jsstring \<Rightarrow> jsstring" where
  "skip_ws s = dropWhile json_ws s"

definition is_digit :: "code_unit \<Rightarrow> bool" where
  "is_digit c \<longleftrightarrow> 0x30 \<le> c \<and> c \<le> 0x39"

definition hex_value :: "code_unit \<Rightarrow> nat option" where
  "hex_value c =
     (if 0x30 \<le> c \<and> c \<le> 0x39 then Some (unat c - 48)
      else if 0x61 \<le> c \<and> c \<le> 0x66 then Some (unat c - 87)
      else if 0x41 \<le> c \<and> c \<le> 0x46 then Some (unat c - 55)
      else None)"

definition unescape :: "code_unit \<Rightarrow> code_unit option" where
  "unescape e =
     (if e = 0x22 \<or> e = 0x5C \<or> e = 0x2F then Some e
      else if e = 0x62 then Some 0x08
      else if e = 0x66 then Some 0x0C
      else if e = 0x6E then Some 0x0A
      else if e = 0x72 then Some 0x0D
      else if e = 0x74 then Some 0x09
      else None)"

definition hex4_value :: "code_unit \<Rightarrow> code_unit \<Rightarrow> code_unit \<Rightarrow> code_unit \<Rightarrow> code_unit option" where
  "hex4_value a b c d =
     (case (hex_value a, hex_value b, hex_value c, hex_value d) of
        (Some x, Some y, Some z, Some u) \<Rightarrow> Some (word_of_nat (((x * 16 + y) * 16 + z) * 16 + u))
      | _ \<Rightarrow> None)"

fun parse_chars :: "jsstring \<Rightarrow> (jsstring \<times> jsstring) option" where
  "parse_chars [] = None"
| "parse_chars (c # cs) =
     (if c = 0x22 then Some ([], cs)
      else if c = 0x5C then
        (case cs of
           [] \<Rightarrow> None
         | e # r \<Rightarrow>
             if e = 0x75 then
               (case r of
                  a # b # c' # d # r' \<Rightarrow>
                    (case hex4_value a b c' d of
                       None \<Rightarrow> None
                     | Some u \<Rightarrow> map_option (\<lambda>(s, t). (u # s, t)) (parse_chars r'))
                | _ \<Rightarrow> None)
             else
               (case unescape e of
                  None \<Rightarrow> None
                | Some u \<Rightarrow> map_option (\<lambda>(s, t). (u # s, t)) (parse_chars r)))
      else if c < 0x20 then None
      else map_option (\<lambda>(s, t). (c # s, t)) (parse_chars cs))"

definition digits_value :: "jsstring \<Rightarrow> nat" where
  "digits_value ds = foldl (\<lambda>n c. 10 * n + (unat c - 48)) 0 ds"

definition parse_number :: "jsstring \<Rightarrow> (int \<times> jsstring) option" where
  "parse_number s =
     (let neg = (s \<noteq> [] \<and> hd s = 0x2D);
          s1 = (if neg then tl s else s);
          ds = takeWhile is_digit s1;
          r = dropWhile is_digit s1
      in if ds = [] then None
         else if hd ds = 0x30 \<and> length ds > 1 then None
         else if r \<noteq> [] \<and> (hd r = 0x2E \<or> hd r = 0x65 \<or> hd r = 0x45) then None
         else Some (if neg then - int (digits_value ds) else int (digits_value ds), r))"

text \<open>
  A later member with the same name replaces the value of the earlier one and keeps its
  place, as \<open>CreateDataProperty\<close> does.
\<close>

definition CreateDataProperty ::
  "(jsstring \<times> int jsval) list \<Rightarrow> jsstring \<times> int jsval \<Rightarrow> (jsstring \<times> int jsval) list" where
  "CreateDataProperty kvs kv =
     (if fst kv \<in> fst ` set kvs
      then map (\<lambda>kv'. if fst kv' = fst kv then kv else kv') kvs
      else kvs @ [kv])"

fun parse_value :: "nat \<Rightarrow> jsstring \<Rightarrow> (int jsval \<times> jsstring) option"
  and parse_elements :: "nat \<Rightarrow> jsstring \<Rightarrow> (int jsval list \<times> jsstring) option"
  and parse_members :: "nat \<Rightarrow> jsstring \<Rightarrow> ((jsstring \<times> int jsval) list \<times> jsstring) option" where
  "parse_value 0 s = None"
| "parse_value (Suc n) s =
     (case skip_ws s of
        [] \<Rightarrow> None
      | c # cs \<Rightarrow>
          if c = 0x5B then
            (case skip_ws cs of
               [] \<Rightarrow> None
             | d # ds \<Rightarrow>
                 if d = 0x5D then Some (JArr [], ds)
                 else map_option (\<lambda>(vs, r). (JArr vs, r)) (parse_elements n cs))
          else if c = 0x7B then
            (case skip_ws cs of
               [] \<Rightarrow> None
             | d # ds \<Rightarrow>
                 if d = 0x7D then Some (JObj [], ds)
                 else map_option (\<lambda>(kvs, r). (JObj (foldl CreateDataProperty [] kvs), r)) (parse_members n cs))
          else if c = 0x22 then map_option (\<lambda>(str, r). (JStr str, r)) (parse_chars cs)
          else if take 4 (c # cs) = ascii ''null'' then Some (JNull, drop 4 (c # cs))
          else if take 4 (c # cs) = ascii ''true'' then Some (JBool True, drop 4 (c # cs))
          else if take 5 (c # cs) = ascii ''false'' then Some (JBool False, drop 5 (c # cs))
          else map_option (\<lambda>(i, r). (JNum i, r)) (parse_number (c # cs)))"
| "parse_elements 0 s = None"
| "parse_elements (Suc n) s =
     (case parse_value n s of
        None \<Rightarrow> None
      | Some (v, r) \<Rightarrow>
          (case skip_ws r of
             [] \<Rightarrow> None
           | c # cs \<Rightarrow>
               if c = 0x5D then Some ([v], cs)
               else if c = 0x2C then map_option (\<lambda>(vs, r'). (v # vs, r')) (parse_elements n cs)
               else None))"
| "parse_members 0 s = None"
| "parse_members (Suc n) s =
     (case skip_ws s of
        [] \<Rightarrow> None
      | c # cs \<Rightarrow>
          if c \<noteq> 0x22 then None
          else
            (case parse_chars cs of
               None \<Rightarrow> None
             | Some (k, r) \<Rightarrow>
                 (case skip_ws r of
                    [] \<Rightarrow> None
                  | d # ds \<Rightarrow>
                      if d \<noteq> 0x3A then None
                      else
                        (case parse_value n ds of
                           None \<Rightarrow> None
                         | Some (v, r') \<Rightarrow>
                             (case skip_ws r' of
                                [] \<Rightarrow> None
                              | e # es \<Rightarrow>
                                  if e = 0x7D then Some ([(k, v)], es)
                                  else if e = 0x2C then
                                    map_option (\<lambda>(kvs, r''). ((k, v) # kvs, r'')) (parse_members n es)
                                  else None)))))"

definition ecma_stringify :: "int jsval \<Rightarrow> exn + jsstring option" where
  "ecma_stringify v = Inr (SerializeJSONProperty v)"

definition ecma_parse :: "jsstring \<Rightarrow> exn + int jsval" where
  "ecma_parse s =
     (case parse_value (2 * length s + 2) s of
        None \<Rightarrow> Inl SyntaxError
      | Some (v, r) \<Rightarrow> if skip_ws r = [] then Inr v else Inl SyntaxError)"

definition ecma :: "int platform" where
  "ecma = \<lparr>JSON_stringify = ecma_stringify, JSON_parse = ecma_parse\<rparr>"

text \<open>
  The values the codec is meant for: no \<open>undefined\<close> anywhere, which \<open>JSON.stringify\<close>
  drops or turns into \<open>null\<close>, no object with two properties of one name, and the
  integers a number holds exactly and prints in full, those up to \<open>2\<^sup>5\<^sup>3 - 1\<close> in
  absolute value.
\<close>

fun json :: "int jsval \<Rightarrow> bool"
  and jsons :: "int jsval list \<Rightarrow> bool"
  and json_members :: "(jsstring \<times> int jsval) list \<Rightarrow> bool" where
  "json JUndefined = False"
| "json JNull = True"
| "json (JBool b) = True"
| "json (JNum i) = (\<bar>i\<bar> < 2 ^ 53)"
| "json (JStr s) = True"
| "json (JArr vs) = jsons vs"
| "json (JObj kvs) = (distinct (map fst kvs) \<and> json_members kvs)"
| "jsons [] = True"
| "jsons (v # vs) = (json v \<and> jsons vs)"
| "json_members [] = True"
| "json_members ((k, v) # kvs) = (json v \<and> json_members kvs)"

text \<open>
  How the text of a value starts and what may follow it: notions of the proof that the
  parser reads back what \<open>SerializeJSONProperty\<close> writes.
\<close>

definition value_text :: "jsstring \<Rightarrow> bool" where
  "value_text t \<longleftrightarrow> t \<noteq> [] \<and> \<not> json_ws (hd t) \<and> hd t \<noteq> 0x5D \<and> hd t \<noteq> 0x7D"

definition delimited :: "jsstring \<Rightarrow> bool" where
  "delimited rest \<longleftrightarrow> rest = [] \<or> hd rest = 0x2C \<or> hd rest = 0x5D \<or> hd rest = 0x7D"

definition number_end :: "jsstring \<Rightarrow> bool" where
  "number_end rest \<longleftrightarrow>
     rest = [] \<or> (\<not> is_digit (hd rest) \<and> hd rest \<noteq> 0x2E \<and> hd rest \<noteq> 0x65 \<and> hd rest \<noteq> 0x45)"

section \<open>Sequences of calls\<close>

text \<open>
  What a caller does with a provider after construction: a sequence of calls of the
  three public operations. The sequence stops at the first exception.
\<close>

datatype 'n call = SetValue jsstring "'n jsval" | GetValue jsstring | RemoveValue jsstring

fun run_call :: "'n platform \<Rightarrow> StoreProvider \<Rightarrow> world \<Rightarrow> 'n call \<Rightarrow> exn + StoreProvider \<times> world" where
  "run_call P p w (SetValue k v) = setValue P p w k v"
| "run_call P p w (GetValue k) =
     (case getValue P p w k of Inl e \<Rightarrow> Inl e | Inr (v, p', w') \<Rightarrow> Inr (p', w'))"
| "run_call P p w (RemoveValue k) = removeValue p w k"

fun run_calls :: "'n platform \<Rightarrow> StoreProvider \<Rightarrow> world \<Rightarrow> 'n call list \<Rightarrow> exn + StoreProvider \<times> world" where
  "run_calls P p w [] = Inr (p, w)"
| "run_calls P p w (c # cs) =
     (case run_call P p w c of Inl e \<Rightarrow> Inl e | Inr (p', w') \<Rightarrow> run_calls P p' w' cs)"

section \<open>Notions the properties are stated with\<close>

text \<open>The store type that names a kind of Web Storage.\<close>

definition web_type :: "web_kind \<Rightarrow> StoreType" where
  "web_type kind = (case kind of Local \<Rightarrow> LocalStorage | Session \<Rightarrow> SessionStorage)"

text \<open>
  The invariant of a constructed provider: \<open>#storeType\<close> names the kind of object
  \<open>#currentStorage\<close> refers to.
\<close>

definition consistent :: "StoreProvider \<Rightarrow> bool" where
  "consistent p =
     (case currentStorage p of
        UndefinedObj \<Rightarrow> False
      | MapObj m \<Rightarrow> storeType p = Memory
      | StorageObj kind \<Rightarrow> storeType p = web_type kind)"

text \<open>The raw string the provider's store holds under a storage key, if any.\<close>

definition held :: "StoreProvider \<Rightarrow> world \<Rightarrow> jsstring \<Rightarrow> jsstring option" where
  "held p w key =
     (case currentStorage p of
        UndefinedObj \<Rightarrow> None
      | MapObj m \<Rightarrow> (case m key of Some (Some raw) \<Rightarrow> Some raw | _ \<Rightarrow> None)
      | StorageObj kind \<Rightarrow> items (storage w kind) key)"

text \<open>
  A value is JSON-serializable on a platform when \<open>JSON.stringify\<close> gives a text for it
  and \<open>JSON.parse\<close> reads that text back as the value. The values of the datatype are
  compared structurally, which is deep equality.
\<close>

definition JSON_serializable :: "'n platform \<Rightarrow> 'n jsval \<Rightarrow> bool" where
  "JSON_serializable P v =
     (case JSON_stringify P v of
        Inr (Some s) \<Rightarrow> JSON_parse P s = Inr v
      | _ \<Rightarrow> False)"

text \<open>A call whose value \<open>JSON.stringify\<close> does not throw on.\<close>

fun encodable :: "'n platform \<Rightarrow> 'n call \<Rightarrow> bool" where
  "encodable P (SetValue k v) = (case JSON_stringify P v of Inl e \<Rightarrow> False | Inr raw \<Rightarrow> True)"
| "encodable P (GetValue k) = True"
| "encodable P (RemoveValue k) = True"

text \<open>
  \<open>unset k cs b\<close>: after the calls \<open>cs\<close>, key \<open>k\<close> has not been set since it was last
  known to have no entry; \<open>b\<close> says whether it had none before the calls.
\<close>

fun unset :: "jsstring \<Rightarrow> 'n call list \<Rightarrow> bool \<Rightarrow> bool" where
  "unset k [] b = b"
| "unset k (SetValue k' v # cs) b = unset k cs (b \<and> k' \<noteq> k)"
| "unset k (GetValue k' # cs) b = unset k cs b"
| "unset k (RemoveValue k' # cs) b = unset k cs (b \<or> k' = k)"

text \<open>The effect of one call on that knowledge.\<close>

fun unset1 :: "jsstring \<Rightarrow> 'n call \<Rightarrow> bool \<Rightarrow> bool" where
  "unset1 k (SetValue k' v) b = (b \<and> k' \<noteq> k)"
| "unset1 k (GetValue k') b = b"
| "unset1 k (RemoveValue k') b = (b \<or> k' = k)"

text \<open>
  The probe of \<open>#canUseWebStorage\<close> throws: the window has no Storage object of that
  kind, or the Storage object refuses the probe write.
\<close>

definition probe_write_throws :: "world \<Rightarrow> web_kind \<Rightarrow> bool" where
  "probe_write_throws w kind =
     (case window_property w kind of
        Getter_throws \<Rightarrow> False
      | Is_undefined \<Rightarrow> True
      | Is_Storage \<Rightarrow>
          setItem_throws (storage w kind) (items (storage w kind)) (ascii ''__ws_test__'') (ascii ''1''))"

text \<open>The option values the constructor works with, after the defaults.\<close>

definition storeType_given :: "'n StoreProviderOptions \<Rightarrow> 'n jsval" where
  "storeType_given opts = default_to (JStr (ascii ''localStorage'')) (storeType_opt opts)"

definition prefix_given :: "'n StoreProviderOptions \<Rightarrow> 'n jsval" where
  "prefix_given opts = default_to (JStr (ascii ''test-app'')) (prefix_opt opts)"

fun is_string :: "'n jsval \<Rightarrow> bool" where
  "is_string (JStr s) = True"
| "is_string v = False"

section \<open>Environments and options to run the provider in\<close>

definition empty_storage :: web_storage where
  "empty_storage = \<lparr>items = Map.empty, setItem_throws = (\<lambda>m k v. False)\<rparr>"

definition refusing_storage :: web_storage where
  "refusing_storage = \<lparr>items = Map.empty, setItem_throws = (\<lambda>m k v. True)\<rparr>"

definition browser :: world where
  "browser =
     \<lparr>has_window = True, window_property = (\<lambda>kind. Is_Storage),
      storage = (\<lambda>kind. empty_storage)\<rparr>"

definition refusing_browser :: world where
  "refusing_browser =
     \<lparr>has_window = True, window_property = (\<lambda>kind. Is_Storage),
      storage = (\<lambda>kind. refusing_storage)\<rparr>"

definition denying_browser :: world where
  "denying_browser =
     \<lparr>has_window = True, window_property = (\<lambda>kind. Getter_throws),
      storage = (\<lambda>kind. empty_storage)\<rparr>"

definition server :: world where
  "server =
     \<lparr>has_window = False, window_property = (\<lambda>kind. Is_undefined),
      storage = (\<lambda>kind. empty_storage)\<rparr>"

definition options :: "string \<Rightarrow> string \<Rightarrow> int StoreProviderOptions" where
  "options st pf = \<lparr>storeType_opt = JStr (ascii st), prefix_opt = JStr (ascii pf)\<rparr>"

text \<open>A world in which a Storage object holds one more item.\<close>

definition with_item :: "web_kind \<Rightarrow> jsstring \<Rightarrow> jsstring \<Rightarrow> world \<Rightarrow> world" where
  "with_item kind key raw w =
     w\<lparr>storage := (storage w)(kind := (storage w kind)\<lparr>items := (items (storage w kind))(key \<mapsto> raw)\<rparr>)\<rparr>"

text \<open>
  The providers the constructor returns in a browser for the store types \<open>memory\<close> and
  \<open>localStorage\<close>, before any call.
\<close>

definition memory_provider :: "string \<Rightarrow> StoreProvider" where
  "memory_provider pf =
     \<lparr>storeType = Memory, prefix = ascii pf, isServer = False, currentStorage = MapObj Map.empty\<rparr>"

definition local_provider :: "string \<Rightarrow> StoreProvider" where
  "local_provider pf =
     \<lparr>storeType = LocalStorage, prefix = ascii pf, isServer = False,
      currentStorage = StorageObj Local\<rparr>"

section \<open>Strings\<close>

lemma ascii_Nil [simp]: "ascii [] = []"
  by (simp add: ascii_def)

lemma ascii_Cons: "ascii (c # s) = word_of_nat (of_char c) # ascii s"
  by (simp add: ascii_def)

lemma ascii_eq_Nil [simp]: "ascii s = [] \<longleftrightarrow> s = []"
  by (simp add: ascii_def)

lemma length_ascii [simp]: "length (ascii s) = length s"
  by (simp add: ascii_def)

lemma dropWhile_blank_surround:
  assumes l: "\<forall>c\<in>set l. blank c" and r: "\<forall>c\<in>set r. blank c"
  shows "rev (dropWhile blank (rev (dropWhile blank (l @ s @ r)))) =
         rev (dropWhile blank (rev (dropWhile blank s)))"
proof -
  have front: "dropWhile blank (l @ s @ r) = dropWhile blank (s @ r)"
    using l by (simp add: dropWhile_append2)
  show ?thesis
  proof (cases "\<forall>c\<in>set s. blank c")
    case True
    with r have "\<forall>c\<in>set (s @ r). blank c" by auto
    then have a: "dropWhile blank (s @ r) = []"
      by (simp only: dropWhile_eq_Nil_conv)
    from True have b: "dropWhile blank s = []"
      by (simp only: dropWhile_eq_Nil_conv)
    show ?thesis by (simp only: front a b)
  next
    case False
    then obtain c where "c \<in> set s" and "\<not> blank c" by blast
    then have a: "dropWhile blank (s @ r) = dropWhile blank s @ r"
      by (rule dropWhile_append1)
    have "\<forall>c\<in>set (rev r). blank c"
      using r by simp
    then have b: "dropWhile blank (rev r @ rev (dropWhile blank s)) =
                 dropWhile blank (rev (dropWhile blank s))"
      by (simp only: dropWhile_append2)
    show ?thesis by (simp only: front a rev_append b)
  qed
qed

lemma trim_surround:
  "\<forall>c\<in>set l. blank c \<Longrightarrow> \<forall>c\<in>set r. blank c \<Longrightarrow> trim (l @ s @ r) = trim s"
  unfolding trim_def by (rule dropWhile_blank_surround)

section \<open>Key derivation\<close>

lemma getKey_inj:
  assumes "getKey p (Some k) = getKey p (Some k')"
  shows "k = k'"
proof -
  have neq: "a @ ascii '':'' @ b \<noteq> a" for a b :: jsstring
  proof
    assume "a @ ascii '':'' @ b = a"
    then have "length (a @ ascii '':'' @ b) = length a" by simp
    then show False by simp
  qed
  show ?thesis
    using assms neq [of "prefix p" k] neq [of "prefix p" k'] neq [of "prefix p" k, symmetric]
    by (auto simp: getKey_def split: if_splits)
qed

lemma getKey_prefix_neq:
  assumes "prefix a \<noteq> prefix b"
  shows "getKey a (Some k) \<noteq> getKey b (Some k)"
proof
  assume eq: "getKey a (Some k) = getKey b (Some k)"
  have len: "length (x @ ascii '':'' @ k) \<noteq> length k" for x :: jsstring
    by simp
  have cancel: "x @ ascii '':'' @ k = y @ ascii '':'' @ k \<Longrightarrow> x = y" for x y :: jsstring
    by simp
  from eq assms show False
    using len [of "prefix a"] len [of "prefix b"] cancel [of "prefix a" "prefix b"]
    by (auto simp: getKey_def split: if_splits)
qed

lemma getKey_update [simp]: "getKey (p\<lparr>currentStorage := c\<rparr>) key = getKey p key"
  by (simp add: getKey_def split: option.splits)

lemma getKey_cong: "prefix p' = prefix p \<Longrightarrow> getKey p' key = getKey p key"
  by (simp add: getKey_def split: option.splits)

section \<open>The adapter\<close>

text \<open>
  On a consistent provider the adapter never throws a TypeError: each of its operations
  is the operation of the object the provider refers to.
\<close>

lemma web_type_neq_Memory [simp]: "web_type kind \<noteq> Memory" "Memory \<noteq> web_type kind"
  by (cases kind; simp add: web_type_def)+

lemma consistent_cases [consumes 1, case_names Map Storage]:
  assumes "consistent p"
  obtains m where "currentStorage p = MapObj m" and "storeType p = Memory"
  | kind where "currentStorage p = StorageObj kind" and "storeType p = web_type kind"
  using assms by (auto simp: consistent_def split: storage_obj.splits)

lemma consistent_MapObj [simp]:
  "consistent (p\<lparr>currentStorage := MapObj m\<rparr>) \<longleftrightarrow> storeType p = Memory"
  by (simp add: consistent_def)

lemma getRaw_Map:
  "currentStorage p = MapObj m \<Longrightarrow> storeType p = Memory \<Longrightarrow>
   getRaw p w key = Inr (case m key of Some (Some raw) \<Rightarrow> Some raw | _ \<Rightarrow> None)"
  by (simp add: getRaw_def)

lemma getRaw_Storage:
  "currentStorage p = StorageObj kind \<Longrightarrow> storeType p = web_type kind \<Longrightarrow>
   getRaw p w key = Inr (items (storage w kind) key)"
  by (simp add: getRaw_def getItem_def)

lemma setRaw_Map:
  "currentStorage p = MapObj m \<Longrightarrow> storeType p = Memory \<Longrightarrow>
   setRaw p w key raw = Inr (p\<lparr>currentStorage := MapObj (m(key \<mapsto> raw))\<rparr>, w)"
  by (simp add: setRaw_def)

lemma setRaw_Storage:
  "currentStorage p = StorageObj kind \<Longrightarrow> storeType p = web_type kind \<Longrightarrow>
   setRaw p w key raw =
     (case setItem w kind key (case raw of None \<Rightarrow> ascii ''undefined'' | Some r \<Rightarrow> r) of
        Inl e \<Rightarrow> Inl e
      | Inr w' \<Rightarrow> Inr (p, w'))"
  by (simp add: setRaw_def)

lemma remove_Map:
  "currentStorage p = MapObj m \<Longrightarrow> storeType p = Memory \<Longrightarrow>
   remove p w key = Inr (p\<lparr>currentStorage := MapObj (m(key := None))\<rparr>, w)"
  by (simp add: remove_def)

lemma remove_Storage:
  "currentStorage p = StorageObj kind \<Longrightarrow> storeType p = web_type kind \<Longrightarrow>
   remove p w key = Inr (p, removeItem w kind key)"
  by (simp add: remove_def)

lemma items_setItem:
  "setItem w kind key raw = Inr w' \<Longrightarrow>
   items (storage w' kind') key' =
     (if kind' = kind \<and> key' = key then Some raw else items (storage w kind') key')"
  by (auto simp: setItem_def Let_def split: if_splits)

lemma items_removeItem:
  "items (storage (removeItem w kind key) kind') key' =
     (if kind' = kind \<and> key' = key then None else items (storage w kind') key')"
  by (simp add: removeItem_def Let_def)

lemma held_Map:
  "currentStorage p = MapObj m \<Longrightarrow>
   held p w key = (case m key of Some (Some raw) \<Rightarrow> Some raw | _ \<Rightarrow> None)"
  by (simp add: held_def)

lemma held_Storage:
  "currentStorage p = StorageObj kind \<Longrightarrow> held p w key = items (storage w kind) key"
  by (simp add: held_def)

lemma getRaw_held:
  assumes "consistent p"
  shows "getRaw p w key = Inr (held p w key)"
  using assms by (cases rule: consistent_cases) (simp_all add: getRaw_Map getRaw_Storage held_def)

lemma getValue_held:
  "consistent p \<Longrightarrow> getValue P p w k = Inr (deserialize P (held p w (getKey p (Some k))), p, w)"
  by (simp add: getValue_def getRaw_held)

section \<open>What one operation does to the store\<close>

lemma setValue_memory:
  assumes "consistent p" and "storeType p = Memory" and "JSON_stringify P v = Inr raw"
  shows "\<exists>m. currentStorage p = MapObj m \<and>
             setValue P p w k v = Inr (p\<lparr>currentStorage := MapObj (m(getKey p (Some k) \<mapsto> raw))\<rparr>, w)"
  using assms(1)
proof (cases rule: consistent_cases)
  case (Map m)
  with assms(3) show ?thesis by (simp add: setValue_def serialize_def setRaw_Map)
next
  case (Storage kind)
  with assms(2) show ?thesis by simp
qed

lemma held_setRaw_other:
  assumes "consistent p" and "setRaw p w key' raw = Inr (p', w')" and "key \<noteq> key'"
  shows "held p' w' key = held p w key"
  using assms(1)
proof (cases rule: consistent_cases)
  case (Map m)
  with assms(2) have p': "p' = p\<lparr>currentStorage := MapObj (m(key' \<mapsto> raw))\<rparr>" and "w' = w"
    by (simp_all add: setRaw_Map)
  then have "currentStorage p' = MapObj (m(key' \<mapsto> raw))" by simp
  then have "held p' w' key = (case (m(key' \<mapsto> raw)) key of Some (Some r) \<Rightarrow> Some r | _ \<Rightarrow> None)"
    by (rule held_Map)
  also have "\<dots> = (case m key of Some (Some r) \<Rightarrow> Some r | _ \<Rightarrow> None)"
    using assms(3) by simp
  also have "\<dots> = held p w key"
    using Map(1) by (rule held_Map [symmetric])
  finally show ?thesis .
next
  case (Storage kind)
  with assms(2) obtain s where s: "setItem w kind key' s = Inr w'" and p': "p' = p"
    by (auto simp: setRaw_Storage split: sum.splits)
  from Storage(1) p' have "held p' w' key = items (storage w' kind) key"
    by (simp add: held_Storage)
  also have "\<dots> = items (storage w kind) key"
    using items_setItem [OF s, of kind key] assms(3) by simp
  also have "\<dots> = held p w key"
    using Storage(1) by (simp add: held_Storage)
  finally show ?thesis .
qed

lemma held_remove:
  assumes "consistent p" and "remove p w key' = Inr (p', w')"
  shows "held p' w' key = (if key = key' then None else held p w key)"
  using assms(1)
proof (cases rule: consistent_cases)
  case (Map m)
  with assms(2) have p': "p' = p\<lparr>currentStorage := MapObj (m(key' := None))\<rparr>" and "w' = w"
    by (simp_all add: remove_Map)
  then have "currentStorage p' = MapObj (m(key' := None))" by simp
  then have "held p' w' key = (case (m(key' := None)) key of Some (Some r) \<Rightarrow> Some r | _ \<Rightarrow> None)"
    by (rule held_Map)
  also have "\<dots> = (if key = key' then None else (case m key of Some (Some r) \<Rightarrow> Some r | _ \<Rightarrow> None))"
    by simp
  also have "\<dots> = (if key = key' then None else held p w key)"
    using Map(1) by (simp only: held_Map)
  finally show ?thesis .
next
  case (Storage kind)
  with assms(2) have w': "w' = removeItem w kind key'" and p': "p' = p"
    by (simp_all add: remove_Storage)
  from Storage(1) p' have "held p' w' key = items (storage w' kind) key"
    by (simp add: held_Storage)
  also have "\<dots> = (if key = key' then None else items (storage w kind) key)"
    unfolding w' by (simp add: items_removeItem)
  also have "\<dots> = (if key = key' then None else held p w key)"
    using Storage(1) by (simp only: held_Storage)
  finally show ?thesis .
qed

lemma held_setValue_other:
  assumes "setValue P a w k v = Inr (a', w')" and "key \<noteq> getKey a (Some k)"
  shows "held b w' key = held b w key"
proof -
  from assms(1) have "w' = w \<or> (\<exists>kind raw. setItem w kind (getKey a (Some k)) raw = Inr w')"
    by (auto simp: setValue_def setRaw_def split: sum.splits storage_obj.splits if_splits)
  then show ?thesis
  proof
    assume "w' = w"
    then show ?thesis by simp
  next
    assume "\<exists>kind raw. setItem w kind (getKey a (Some k)) raw = Inr w'"
    then obtain kind raw where "setItem w kind (getKey a (Some k)) raw = Inr w'" by blast
    from items_setItem [OF this] assms(2) show ?thesis
      by (simp add: held_def split: storage_obj.splits)
  qed
qed

lemma held_setValue_same:
  assumes "consistent p" and "JSON_stringify P v = Inr (Some s)"
    and "setValue P p w k v = Inr (p', w')"
  shows "consistent p' \<and> prefix p' = prefix p \<and> held p' w' (getKey p (Some k)) = Some s"
proof -
  from assms(2,3) have raw: "setRaw p w (getKey p (Some k)) (Some s) = Inr (p', w')"
    by (simp add: setValue_def serialize_def)
  from assms(1) show ?thesis
  proof (cases rule: consistent_cases)
    case (Map m)
    with raw show ?thesis
      by (auto simp: setRaw_Map held_def consistent_def)
  next
    case (Storage kind)
    with raw have "setItem w kind (getKey p (Some k)) s = Inr w'" and "p' = p"
      by (auto simp: setRaw_Storage split: sum.splits)
    from items_setItem [OF this(1)] \<open>p' = p\<close> Storage assms(1) show ?thesis
      by (simp add: held_def)
  qed
qed

section \<open>Construction establishes the invariant\<close>

lemma initStorage_consistent:
  assumes "initStorage w p = Inr (p', w')"
  shows "consistent p' \<and> prefix p' = prefix p \<and> isServer p' = isServer p"
  using assms
  by (cases "storeType p")
     (auto simp: initStorage_def Let_def consistent_def web_type_def read_window_def
           split: if_splits sum.splits prod.splits property_read.splits bool.splits)

lemma constructor_consistent:
  assumes "constructor w opts = Inr (p, w')"
  shows "consistent p"
  using assms initStorage_consistent
  by (fastforce simp: constructor_def Let_def split: option.splits jsval.splits)

lemma constructor_prefix:
  assumes "constructor w opts = Inr (p, w')"
  shows "\<exists>s. prefix_given opts = JStr s \<and> prefix p = trim s"
  using assms initStorage_consistent
  by (fastforce simp: constructor_def prefix_given_def Let_def split: option.splits jsval.splits)

lemma constructor_probe_fails:
  assumes "has_window w" and "probe_write_throws w kind"
    and "as_StoreType (storeType_given opts) = Some (web_type kind)"
    and "is_string (prefix_given opts)"
  shows "\<exists>p. constructor w opts = Inr (p, w) \<and> storeType p = Memory \<and>
             currentStorage p = MapObj Map.empty"
proof -
  from assms(4) obtain s where s: "prefix_given opts = JStr s"
    by (cases "prefix_given opts") auto
  show ?thesis
    using assms(1-3) s
    by (cases kind)
       (auto simp: constructor_def storeType_given_def prefix_given_def Let_def web_type_def
                   initStorage_def read_window_def probe_write_throws_def setItem_def
             split: property_read.splits)
qed

lemma fresh_memory_holds_nothing:
  assumes "constructor w opts = Inr (p, w')" and "storeType p = Memory"
  shows "held p w' key = None"
proof -
  have "initStorage w q = Inr (p, w') \<Longrightarrow> currentStorage p = MapObj Map.empty" for q
    using assms(2)
    by (cases "storeType q")
       (auto simp: initStorage_def Let_def read_window_def
             split: if_splits sum.splits prod.splits property_read.splits bool.splits)
  with assms(1) have "currentStorage p = MapObj Map.empty"
    by (auto simp: constructor_def Let_def split: option.splits jsval.splits)
  then show ?thesis by (simp add: held_def)
qed

lemma constructor_throws_iff:
  assumes "\<forall>kind. has_window w \<longrightarrow> window_property w kind \<noteq> Getter_throws"
  shows "(\<exists>e. constructor w opts = Inl e) \<longleftrightarrow>
         as_StoreType (storeType_given opts) = None \<or> \<not> is_string (prefix_given opts)"
proof (cases "as_StoreType (storeType_given opts)")
  case None
  then show ?thesis
    by (simp add: constructor_def storeType_given_def)
next
  case (Some t)
  show ?thesis
  proof (cases "prefix_given opts")
    case (JStr s)
    have "\<exists>p w'. initStorage w \<lparr>storeType = t, prefix = trim s, isServer = \<not> has_window w,
            currentStorage = UndefinedObj\<rparr> = Inr (p, w')"
      using assms
      by (cases t; cases "has_window w")
         (auto simp: initStorage_def read_window_def Let_def
               split: property_read.splits prod.splits bool.splits)
    with Some JStr show ?thesis
      by (auto simp: constructor_def storeType_given_def prefix_given_def)
  qed (use Some in \<open>simp_all add: constructor_def storeType_given_def prefix_given_def\<close>)
qed

section \<open>Sequences of calls keep the invariant\<close>

lemma consistent_run_call:
  assumes "consistent p" and "run_call P p w c = Inr (p', w')"
  shows "consistent p' \<and> prefix p' = prefix p"
  using assms(1)
proof (cases rule: consistent_cases)
  case (Map m)
  with assms(2) show ?thesis
    by (cases c)
       (auto simp: setValue_def setRaw_Map removeValue_def remove_Map getValue_def consistent_def
             split: sum.splits)
next
  case (Storage kind)
  with assms(2) show ?thesis
    by (cases c)
       (auto simp: setValue_def setRaw_Storage removeValue_def remove_Storage getValue_def
                   consistent_def
             split: sum.splits)
qed

text \<open>
  With \<open>constructor_consistent\<close>: every state a caller can reach, by constructing a
  provider and calling its operations, is consistent.
\<close>

lemma consistent_run_calls:
  assumes "consistent p" and "run_calls P p w cs = Inr (p', w')"
  shows "consistent p' \<and> prefix p' = prefix p"
  using assms
proof (induction cs arbitrary: p w)
  case Nil
  then show ?case by simp
next
  case (Cons c cs)
  from Cons.prems(2) obtain q u where
    step: "run_call P p w c = Inr (q, u)" and rest: "run_calls P q u cs = Inr (p', w')"
    by (auto split: sum.splits)
  from consistent_run_call [OF Cons.prems(1) step] have q: "consistent q" "prefix q = prefix p"
    by simp_all
  from Cons.IH [OF q(1) rest] q(2) show ?case by simp
qed

lemma run_call_memory:
  assumes "consistent p" and "storeType p = Memory" and "encodable P c"
  shows "\<exists>p'. run_call P p w c = Inr (p', w) \<and> consistent p' \<and> storeType p' = Memory"
proof (cases c)
  case (SetValue k v)
  with assms(3) obtain raw where "JSON_stringify P v = Inr raw"
    by (auto split: sum.splits)
  from setValue_memory [OF assms(1,2) this, of w k] obtain m where
    "setValue P p w k v = Inr (p\<lparr>currentStorage := MapObj (m(getKey p (Some k) \<mapsto> raw))\<rparr>, w)"
    by blast
  with SetValue assms(2) show ?thesis by simp
next
  case (GetValue k)
  with assms show ?thesis by (simp add: getValue_held)
next
  case (RemoveValue k)
  from assms(1) show ?thesis
  proof (cases rule: consistent_cases)
    case (Map m)
    with assms(2) RemoveValue show ?thesis
      by (simp add: removeValue_def remove_Map)
  next
    case (Storage kind)
    with assms(2) show ?thesis by simp
  qed
qed

lemma run_calls_memory:
  assumes "consistent p" and "storeType p = Memory" and "list_all (encodable P) cs"
  shows "\<exists>p'. run_calls P p w cs = Inr (p', w) \<and> consistent p' \<and> storeType p' = Memory"
  using assms
proof (induction cs arbitrary: p)
  case Nil
  then show ?case by simp
next
  case (Cons c cs)
  from Cons.prems have "encodable P c" and rest: "list_all (encodable P) cs" by simp_all
  from run_call_memory [OF Cons.prems(1,2) this(1)] obtain q where
    q: "run_call P p w c = Inr (q, w)" "consistent q" "storeType q = Memory" by blast
  from Cons.IH [OF q(2,3) rest] q(1) show ?case by simp
qed

lemma unset_Cons: "unset k (c # cs) b = unset k cs (unset1 k c b)"
  by (cases c) simp_all

lemma unset_mono: "unset k cs b \<Longrightarrow> (b \<Longrightarrow> b') \<Longrightarrow> unset k cs b'"
proof (induction cs arbitrary: b b')
  case Nil
  then show ?case by simp
next
  case (Cons c cs)
  from Cons.prems(1) have "unset k cs (unset1 k c b)" by (simp only: unset_Cons)
  moreover have "unset1 k c b \<Longrightarrow> unset1 k c b'"
    using Cons.prems(2) by (cases c) auto
  ultimately have "unset k cs (unset1 k c b')" by (rule Cons.IH)
  then show ?case by (simp only: unset_Cons)
qed

lemma held_run_call:
  assumes "consistent p" and "run_call P p w c = Inr (p', w')"
    and "unset1 k c (held p w (getKey p (Some k)) = None)"
  shows "held p' w' (getKey p (Some k)) = None"
proof (cases c)
  case (SetValue k' v)
  with assms(3) have "k' \<noteq> k" and none: "held p w (getKey p (Some k)) = None" by simp_all
  then have neq: "getKey p (Some k) \<noteq> getKey p (Some k')"
    using getKey_inj by blast
  from assms(2) SetValue obtain raw where
    raw: "setRaw p w (getKey p (Some k')) raw = Inr (p', w')"
    by (auto simp: setValue_def split: sum.splits)
  from held_setRaw_other [OF assms(1) raw neq] none show ?thesis by simp
next
  case (GetValue k')
  with assms(2) have "p' = p" and "w' = w"
    by (auto simp: getValue_def split: sum.splits)
  with assms(3) GetValue show ?thesis by simp
next
  case (RemoveValue k')
  with assms(3) have none: "k' \<noteq> k \<Longrightarrow> held p w (getKey p (Some k)) = None" by simp
  from assms(2) RemoveValue have rm: "remove p w (getKey p (Some k')) = Inr (p', w')"
    by (simp add: removeValue_def)
  show ?thesis
  proof (cases "k' = k")
    case True
    with held_remove [OF assms(1) rm, of "getKey p (Some k)"] show ?thesis by simp
  next
    case False
    from held_remove [OF assms(1) rm, of "getKey p (Some k)"] none [OF False] show ?thesis
      by (simp split: if_splits)
  qed
qed

lemma held_run_calls:
  assumes "consistent p" and "run_calls P p w cs = Inr (p', w')"
    and "unset k cs (held p w (getKey p (Some k)) = None)"
  shows "consistent p' \<and> prefix p' = prefix p \<and> held p' w' (getKey p (Some k)) = None"
  using assms
proof (induction cs arbitrary: p w)
  case Nil
  then show ?case by simp
next
  case (Cons c cs)
  from Cons.prems(2) obtain q u where
    step: "run_call P p w c = Inr (q, u)" and rest: "run_calls P q u cs = Inr (p', w')"
    by (auto split: sum.splits)
  from consistent_run_call [OF Cons.prems(1) step] have q: "consistent q" "prefix q = prefix p"
    by simp_all
  then have key: "getKey q (Some k) = getKey p (Some k)" by (simp only: getKey_cong [of q p])
  from Cons.prems(3) have u: "unset k cs (unset1 k c (held p w (getKey p (Some k)) = None))"
    by (simp only: unset_Cons)
  have "unset k cs (held q u (getKey q (Some k)) = None)"
    using u
  proof (rule unset_mono)
    assume "unset1 k c (held p w (getKey p (Some k)) = None)"
    from held_run_call [OF Cons.prems(1) step this] key
    show "held q u (getKey q (Some k)) = None" by simp
  qed
  from Cons.IH [OF q(1) rest this] q(2) key show ?case by simp
qed

section \<open>The codec reads back what it writes\<close>

text \<open>
  For every value of \<open>json\<close>, parsing the text that \<open>SerializeJSONProperty\<close> gives
  returns the value: the codec satisfies the contract that \<open>JSON_serializable\<close> asks of
  a platform on all these values, and the fuel \<open>ecma_parse\<close> supplies is enough for
  their texts.
\<close>

subsection \<open>String literals\<close>

declare parse_chars.simps [simp del]

lemma hex_digits_16:
  "list_all (\<lambda>d. hex_value (hex_digit d) = Some d) [0..<16]"
  by code_simp

lemma hex_value_hex_digit: "d < 16 \<Longrightarrow> hex_value (hex_digit d) = Some d"
  using hex_digits_16 by (simp add: list_all_iff)

lemma hexsum:
  fixes n :: nat
  shows "((n div 4096 * 16 + n div 256 mod 16) * 16 + n div 16 mod 16) * 16 + n mod 16 = n"
proof -
  have a: "n div 4096 = n div 16 div 16 div 16" and b: "n div 256 = n div 16 div 16"
    by (simp_all add: div_mult2_eq)
  have "(n div 16 div 16 div 16 * 16 + n div 16 div 16 mod 16) = n div 16 div 16"
    by (rule div_mult_mod_eq)
  moreover have "n div 16 div 16 * 16 + n div 16 mod 16 = n div 16"
    by (rule div_mult_mod_eq)
  moreover have "n div 16 * 16 + n mod 16 = n"
    by (rule div_mult_mod_eq)
  ultimately show ?thesis
    unfolding a b by simp
qed

lemma hex4_value_hex4:
  "hex4 c = [x, y, z, u] \<Longrightarrow> hex4_value x y z u = Some c"
proof -
  assume h: "hex4 c = [x, y, z, u]"
  define n where "n = unat c"
  have n: "n < 65536"
    unfolding n_def using unsigned_less [of c, where ?'a = nat] by simp
  from h have xs: "x = hex_digit (n div 4096)" "y = hex_digit (n div 256 mod 16)"
      "z = hex_digit (n div 16 mod 16)" "u = hex_digit (n mod 16)"
    by (simp_all add: hex4_def n_def Let_def)
  have "n div 4096 < 16" using n by simp
  then have "hex_value x = Some (n div 4096)" "hex_value y = Some (n div 256 mod 16)"
      "hex_value z = Some (n div 16 mod 16)" "hex_value u = Some (n mod 16)"
    unfolding xs by (simp_all add: hex_value_hex_digit)
  moreover have "((n div 4096 * 16 + n div 256 mod 16) * 16 + n div 16 mod 16) * 16 + n mod 16 = n"
    by (rule hexsum)
  moreover have "word_of_nat n = c"
    by (simp add: n_def)
  ultimately show ?thesis
    by (simp add: hex4_value_def)
qed

lemma parse_chars_escape_unit:
  "parse_chars (escape_unit c @ t) = map_option (\<lambda>(s, r). (c # s, r)) (parse_chars t)"
proof -
  consider (short) "c = 0x08 \<or> c = 0x09 \<or> c = 0x0A \<or> c = 0x0C \<or> c = 0x0D \<or> c = 0x22 \<or> c = 0x5C"
    | (hex) "\<not> (c = 0x08 \<or> c = 0x09 \<or> c = 0x0A \<or> c = 0x0C \<or> c = 0x0D \<or> c = 0x22 \<or> c = 0x5C)"
        "c < 0x20 \<or> (0xD800 \<le> c \<and> c \<le> 0xDFFF)"
    | (plain) "\<not> (c = 0x08 \<or> c = 0x09 \<or> c = 0x0A \<or> c = 0x0C \<or> c = 0x0D \<or> c = 0x22 \<or> c = 0x5C)"
        "\<not> (c < 0x20 \<or> (0xD800 \<le> c \<and> c \<le> 0xDFFF))"
    by blast
  then show ?thesis
  proof cases
    case short
    then show ?thesis
      by (elim disjE) (simp_all add: escape_unit_def unescape_def parse_chars.simps)
  next
    case hex
    obtain x y z u where h: "hex4 c = [x, y, z, u]"
      by (simp add: hex4_def Let_def)
    from hex have "escape_unit c = [0x5C, 0x75] @ hex4 c"
      by (simp add: escape_unit_def)
    with h hex4_value_hex4 [OF h] show ?thesis
      by (simp add: parse_chars.simps)
  next
    case plain
    then have "escape_unit c = [c]"
      by (simp add: escape_unit_def)
    with plain show ?thesis
      by (simp add: parse_chars.simps)
  qed
qed

lemma parse_chars_plain:
  "c \<noteq> 0x22 \<Longrightarrow> c \<noteq> 0x5C \<Longrightarrow> \<not> c < 0x20 \<Longrightarrow>
   parse_chars (c # cs) = map_option (\<lambda>(s, t). (c # s, t)) (parse_chars cs)"
  by (simp add: parse_chars.simps)

lemma parse_chars_quote_units:
  "parse_chars (quote_units s @ 0x22 # rest) = Some (s, rest)"
proof (induction s rule: quote_units.induct)
  case 1
  then show ?case by (simp add: parse_chars.simps)
next
  case (2 c)
  have "parse_chars (escape_unit c @ 0x22 # rest) = Some ([c], rest)"
    by (simp only: parse_chars_escape_unit) (simp add: parse_chars.simps)
  then show ?case by simp
next
  case (3 c d cs)
  show ?case
  proof (cases "0xD800 \<le> c \<and> c \<le> 0xDBFF \<and> 0xDC00 \<le> d \<and> d \<le> 0xDFFF")
    case True
    have c: "c \<noteq> 0x22" "c \<noteq> 0x5C" "\<not> c < 0x20"
      using True by (auto simp: word_le_nat_alt word_less_nat_alt)
    have d: "d \<noteq> 0x22" "d \<noteq> 0x5C" "\<not> d < 0x20"
      using True by (auto simp: word_le_nat_alt word_less_nat_alt)
    have q: "quote_units (c # d # cs) = c # d # quote_units cs"
      by (subst quote_units.simps) (rule if_P [OF True])
    from True 3(1) have ih: "parse_chars (quote_units cs @ 0x22 # rest) = Some (cs, rest)"
      by blast
    show ?thesis
      unfolding q by (simp add: parse_chars_plain [OF c] parse_chars_plain [OF d] ih)
  next
    case False
    have q: "quote_units (c # d # cs) = escape_unit c @ quote_units (d # cs)"
      by (subst quote_units.simps) (rule if_not_P [OF False])
    from False 3(2) have ih: "parse_chars (quote_units (d # cs) @ 0x22 # rest) = Some (d # cs, rest)"
      by blast
    have "parse_chars (escape_unit c @ (quote_units (d # cs) @ 0x22 # rest)) = Some (c # d # cs, rest)"
      by (simp only: parse_chars_escape_unit ih) simp
    then show ?thesis
      unfolding q by simp
  qed
qed

lemma parse_chars_QuoteJSONString:
  "QuoteJSONString s @ rest = 0x22 # t \<Longrightarrow> parse_chars t = Some (s, rest)"
  using parse_chars_quote_units [of s rest] by (simp add: QuoteJSONString_def)

subsection \<open>Numbers\<close>

lemma digit_units:
  "list_all (\<lambda>d. is_digit (word_of_nat (48 + d)) \<and> unat (word_of_nat (48 + d) :: code_unit) - 48 = d \<and>
       (word_of_nat (48 + d) :: code_unit) \<noteq> 0x2D \<and>
       ((word_of_nat (48 + d) :: code_unit) = 0x30 \<longrightarrow> d = 0)) [0..<10]"
  by code_simp

lemma digit_unit:
  assumes "d < 10"
  shows "is_digit (word_of_nat (48 + d))"
    and "unat (word_of_nat (48 + d) :: code_unit) - 48 = d"
    and "(word_of_nat (48 + d) :: code_unit) \<noteq> 0x2D"
    and "(word_of_nat (48 + d) :: code_unit) = 0x30 \<Longrightarrow> d = 0"
  using digit_units assms by (simp_all add: list_all_iff)

lemma digits_small: "n < 10 \<Longrightarrow> digits n = [word_of_nat (48 + n)]"
  by (subst digits.simps) (simp only: if_P)

lemma digits_large:
  "\<not> n < 10 \<Longrightarrow> digits n = digits (n div 10) @ [word_of_nat (48 + n mod 10)]"
  by (subst digits.simps) (simp only: if_False)

lemma digits_nonempty: "digits n \<noteq> []"
  by (cases "n < 10") (simp_all add: digits_small digits_large)

lemma digits_all: "list_all is_digit (digits n)"
proof (induction n rule: digits.induct)
  case (1 n)
  show ?case
  proof (cases "n < 10")
    case True
    then show ?thesis
      using digit_unit(1) [OF True] by (simp add: digits_small del: of_nat_add)
  next
    case False
    with 1 have "list_all is_digit (digits (n div 10))" by simp
    moreover have "is_digit (word_of_nat (48 + n mod 10))"
      by (rule digit_unit(1)) simp
    ultimately show ?thesis
      using False by (simp add: digits_large del: of_nat_add)
  qed
qed

lemma digits_value_snoc: "digits_value (ds @ [c]) = 10 * digits_value ds + (unat c - 48)"
  by (simp add: digits_value_def)

lemma digits_value_digits: "digits_value (digits n) = n"
proof (induction n rule: digits.induct)
  case (1 n)
  show ?case
  proof (cases "n < 10")
    case True
    then show ?thesis
      using digit_unit(2) [OF True] by (simp add: digits_small digits_value_def del: of_nat_add)
  next
    case False
    with 1 have "digits_value (digits (n div 10)) = n div 10" by simp
    moreover have "unat (word_of_nat (48 + n mod 10) :: code_unit) - 48 = n mod 10"
      by (rule digit_unit(2)) simp
    ultimately show ?thesis
      using False by (simp add: digits_large digits_value_snoc del: of_nat_add)
  qed
qed

lemma hd_digits_zero: "hd (digits n) = 0x30 \<Longrightarrow> n = 0"
proof (induction n rule: digits.induct)
  case (1 n)
  show ?case
  proof (cases "n < 10")
    case True
    with 1(2) have "(word_of_nat (48 + n) :: code_unit) = 0x30"
      by (simp add: digits_small del: of_nat_add)
    with True show ?thesis by (rule digit_unit(4))
  next
    case False
    with 1(2) have "hd (digits (n div 10)) = 0x30"
      by (simp add: digits_large digits_nonempty del: of_nat_add)
    with 1(1) False have "n div 10 = 0" by simp
    with False show ?thesis by simp
  qed
qed

lemma hd_digits_not_minus: "hd (digits n) \<noteq> 0x2D"
proof -
  from digits_all [of n] digits_nonempty [of n] have "is_digit (hd (digits n))"
    by (cases "digits n") simp_all
  then show ?thesis
    by (auto simp: is_digit_def word_le_nat_alt)
qed

lemma takeWhile_digits:
  assumes "number_end rest"
  shows "takeWhile is_digit (digits n @ rest) = digits n"
    and "dropWhile is_digit (digits n @ rest) = rest"
proof -
  have all: "\<And>x. x \<in> set (digits n) \<Longrightarrow> is_digit x"
    using digits_all [of n] by (simp add: list_all_iff)
  have "takeWhile is_digit rest = []" and "dropWhile is_digit rest = rest"
    using assms by (cases rest; simp add: number_end_def)+
  then show "takeWhile is_digit (digits n @ rest) = digits n"
    and "dropWhile is_digit (digits n @ rest) = rest"
    using all by simp_all
qed

lemma parse_number_digits:
  assumes "number_end rest"
  shows "parse_number (digits n @ rest) = Some (int n, rest)"
proof -
  have "digits n @ rest \<noteq> []" "hd (digits n @ rest) \<noteq> 0x2D"
    using digits_nonempty [of n] hd_digits_not_minus [of n] by simp_all
  moreover have "\<not> (hd (digits n) = 0x30 \<and> length (digits n) > 1)"
  proof
    assume a: "hd (digits n) = 0x30 \<and> length (digits n) > 1"
    then have "n = 0" using hd_digits_zero by blast
    then have "digits n = [0x30]" by (simp add: digits_small)
    with a show False by simp
  qed
  moreover have "\<not> (rest \<noteq> [] \<and> (hd rest = 0x2E \<or> hd rest = 0x65 \<or> hd rest = 0x45))"
    using assms by (auto simp: number_end_def)
  ultimately show ?thesis
    using takeWhile_digits [OF assms, of n] digits_nonempty [of n]
    by (simp add: parse_number_def Let_def digits_value_digits)
qed

lemma parse_number_toString:
  assumes "number_end rest"
  shows "parse_number (Number_toString i @ rest) = Some (i, rest)"
proof (cases "i < 0")
  case True
  have "\<not> (hd (digits (nat (- i))) = 0x30 \<and> length (digits (nat (- i))) > 1)"
  proof
    assume a: "hd (digits (nat (- i))) = 0x30 \<and> length (digits (nat (- i))) > 1"
    then have "nat (- i) = 0" using hd_digits_zero by blast
    then have "digits (nat (- i)) = [0x30]" by (simp add: digits_small)
    with a show False by simp
  qed
  moreover have "\<not> (rest \<noteq> [] \<and> (hd rest = 0x2E \<or> hd rest = 0x65 \<or> hd rest = 0x45))"
    using assms by (auto simp: number_end_def)
  ultimately show ?thesis
    using True takeWhile_digits [OF assms, of "nat (- i)"] digits_nonempty [of "nat (- i)"]
    by (simp add: parse_number_def Number_toString_def Let_def digits_value_digits)
next
  case False
  with parse_number_digits [OF assms, of "nat i"] show ?thesis
    by (simp add: Number_toString_def)
qed

declare parse_value.simps [simp del] parse_elements.simps [simp del] parse_members.simps [simp del]

lemma delimited_number_end: "delimited rest \<Longrightarrow> number_end rest"
  by (auto simp: delimited_def number_end_def is_digit_def)

lemma skip_ws_Cons: "\<not> json_ws c \<Longrightarrow> skip_ws (c # s) = c # s"
  by (simp add: skip_ws_def)

lemma skip_ws_value_text: "value_text t \<Longrightarrow> skip_ws (t @ r) = t @ r"
  by (cases t) (simp_all add: value_text_def skip_ws_def)

lemma not_ws [simp]:
  "\<not> json_ws 0x2C" "\<not> json_ws 0x5D" "\<not> json_ws 0x7D" "\<not> json_ws 0x3A" "\<not> json_ws 0x22"
  "\<not> json_ws 0x5B" "\<not> json_ws 0x7B"
  by (simp_all add: json_ws_def)

lemma parse_value_null:
  "parse_value (Suc n) (ascii ''null'' @ rest) = Some (JNull, rest)"
  by (simp add: parse_value.simps ascii_def skip_ws_def json_ws_def)

lemma parse_value_true:
  "parse_value (Suc n) (ascii ''true'' @ rest) = Some (JBool True, rest)"
  by (simp add: parse_value.simps ascii_def skip_ws_def json_ws_def)

lemma parse_value_false:
  "parse_value (Suc n) (ascii ''false'' @ rest) = Some (JBool False, rest)"
  by (simp add: parse_value.simps ascii_def skip_ws_def json_ws_def)

lemma parse_value_string:
  "parse_value (Suc n) (QuoteJSONString s @ rest) = Some (JStr s, rest)"
  using parse_chars_quote_units [of s rest]
  by (simp add: parse_value.simps QuoteJSONString_def skip_ws_def json_ws_def)

lemma number_start:
  assumes "is_digit c \<or> c = 0x2D"
  shows "\<not> json_ws c" "c \<noteq> 0x5B" "c \<noteq> 0x7B" "c \<noteq> 0x22" "c \<noteq> 0x6E" "c \<noteq> 0x74" "c \<noteq> 0x66"
    "c \<noteq> 0x5D" "c \<noteq> 0x7D"
  using assms by (auto simp: is_digit_def json_ws_def word_le_nat_alt)

lemma parse_value_number_start:
  assumes "is_digit c \<or> c = 0x2D"
  shows "parse_value (Suc n) (c # cs) = map_option (\<lambda>(i, r). (JNum i, r)) (parse_number (c # cs))"
  using number_start [OF assms]
  by (simp add: parse_value.simps skip_ws_def ascii_def)

lemma Number_toString_start:
  "\<exists>c cs. Number_toString i = c # cs \<and> (is_digit c \<or> c = 0x2D)"
proof (cases "i < 0")
  case True
  then show ?thesis by (simp add: Number_toString_def)
next
  case False
  from digits_all [of "nat i"] digits_nonempty [of "nat i"]
  have "\<exists>c cs. digits (nat i) = c # cs \<and> is_digit c"
    by (cases "digits (nat i)") simp_all
  with False show ?thesis by (auto simp: Number_toString_def)
qed

lemma parse_value_number:
  assumes "delimited rest"
  shows "parse_value (Suc n) (Number_toString i @ rest) = Some (JNum i, rest)"
proof -
  from Number_toString_start [of i] obtain c cs where
    t: "Number_toString i = c # cs" and c: "is_digit c \<or> c = 0x2D" by blast
  have "parse_value (Suc n) (c # (cs @ rest)) =
        map_option (\<lambda>(i, r). (JNum i, r)) (parse_number (c # (cs @ rest)))"
    using c by (rule parse_value_number_start)
  moreover have "parse_number (c # (cs @ rest)) = Some (i, rest)"
    using parse_number_toString [OF delimited_number_end [OF assms], of i] t by simp
  ultimately show ?thesis using t by simp
qed

lemma value_text_atoms:
  "value_text (ascii ''null'')" "value_text (ascii ''true'')" "value_text (ascii ''false'')"
  "value_text (QuoteJSONString s)" "value_text (Number_toString i)"
  "value_text (0x5B # t)" "value_text (0x7B # t)"
proof -
  from Number_toString_start [of i] obtain c cs where
    t: "Number_toString i = c # cs" and c: "is_digit c \<or> c = 0x2D" by blast
  with number_start [OF c] show "value_text (Number_toString i)"
    by (simp add: value_text_def)
qed (simp_all add: value_text_def ascii_def QuoteJSONString_def json_ws_def)

subsection \<open>Arrays and objects\<close>

lemma parse_value_array_empty:
  "parse_value (Suc n) (0x5B # 0x5D # rest) = Some (JArr [], rest)"
  by (simp add: parse_value.simps skip_ws_def json_ws_def)

lemma parse_value_array:
  assumes "value_text e"
  shows "parse_value (Suc n) (0x5B # e @ r) =
         map_option (\<lambda>(vs, r). (JArr vs, r)) (parse_elements n (e @ r))"
proof -
  from assms obtain c cs where e: "e = c # cs" and c: "\<not> json_ws c" "c \<noteq> 0x5D"
    by (cases e) (auto simp: value_text_def)
  then show ?thesis
    by (simp add: parse_value.simps skip_ws_def json_ws_def)
qed

lemma parse_value_object_empty:
  "parse_value (Suc n) (0x7B # 0x7D # rest) = Some (JObj [], rest)"
  by (simp add: parse_value.simps skip_ws_def json_ws_def)

lemma parse_value_object:
  assumes "e \<noteq> []" and "hd e = 0x22"
  shows "parse_value (Suc n) (0x7B # e @ r) =
         map_option (\<lambda>(kvs, r). (JObj (foldl CreateDataProperty [] kvs), r)) (parse_members n (e @ r))"
proof -
  from assms obtain cs where e: "e = 0x22 # cs"
    by (cases e) auto
  then show ?thesis
    by (simp add: parse_value.simps skip_ws_def json_ws_def)
qed

lemma parse_elements_last:
  assumes "parse_value n (t @ 0x5D # rest) = Some (v, 0x5D # rest)"
  shows "parse_elements (Suc n) (t @ 0x5D # rest) = Some ([v], rest)"
  using assms by (simp add: parse_elements.simps skip_ws_Cons)

lemma parse_elements_more:
  assumes "parse_value n (t @ 0x2C # u) = Some (v, 0x2C # u)"
  shows "parse_elements (Suc n) (t @ 0x2C # u) =
         map_option (\<lambda>(vs, r). (v # vs, r)) (parse_elements n u)"
  using assms by (simp add: parse_elements.simps skip_ws_Cons)

lemma parse_members_last:
  assumes "parse_value n (t @ 0x7D # rest) = Some (v, 0x7D # rest)"
  shows "parse_members (Suc n) (QuoteJSONString k @ 0x3A # t @ 0x7D # rest) = Some ([(k, v)], rest)"
proof -
  have q: "QuoteJSONString k @ 0x3A # t @ 0x7D # rest =
           0x22 # (quote_units k @ 0x22 # (0x3A # t @ 0x7D # rest))"
    by (simp add: QuoteJSONString_def)
  show ?thesis
    unfolding q using assms
    by (simp add: parse_members.simps skip_ws_Cons parse_chars_quote_units)
qed

lemma parse_members_more:
  assumes "parse_value n (t @ 0x2C # u) = Some (v, 0x2C # u)"
  shows "parse_members (Suc n) (QuoteJSONString k @ 0x3A # t @ 0x2C # u) =
         map_option (\<lambda>(kvs, r). ((k, v) # kvs, r)) (parse_members n u)"
proof -
  have q: "QuoteJSONString k @ 0x3A # t @ 0x2C # u =
           0x22 # (quote_units k @ 0x22 # (0x3A # t @ 0x2C # u))"
    by (simp add: QuoteJSONString_def)
  show ?thesis
    unfolding q using assms
    by (simp add: parse_members.simps skip_ws_Cons parse_chars_quote_units)
qed

lemma foldl_CreateDataProperty:
  "distinct (map fst (acc @ kvs)) \<Longrightarrow> foldl CreateDataProperty acc kvs = acc @ kvs"
proof (induction kvs arbitrary: acc)
  case Nil
  then show ?case by simp
next
  case (Cons kv kvs)
  from Cons.prems have new: "fst kv \<notin> fst ` set acc" by auto
  from Cons.prems have "distinct (map fst ((acc @ [kv]) @ kvs))" by simp
  then have "foldl CreateDataProperty (acc @ [kv]) kvs = (acc @ [kv]) @ kvs"
    by (rule Cons.IH)
  moreover from new have "CreateDataProperty acc kv = acc @ [kv]"
    by (simp add: CreateDataProperty_def)
  ultimately show ?case by simp
qed

lemma join_Cons: "xs \<noteq> [] \<Longrightarrow> join sep (x # xs) = x @ sep @ join sep xs"
  by (cases xs) simp_all

lemma json_serialized: "json v \<Longrightarrow> SerializeJSONProperty v \<noteq> None"
  by (cases v) simp_all

lemma SerializeJSONArray_Cons:
  "json v \<Longrightarrow> SerializeJSONArray (v # vs) = the (SerializeJSONProperty v) # SerializeJSONArray vs"
  using json_serialized [of v] by auto

lemma SerializeJSONObject_Cons:
  "json v \<Longrightarrow> SerializeJSONObject ((k, v) # kvs) =
     (QuoteJSONString k @ [0x3A] @ the (SerializeJSONProperty v)) # SerializeJSONObject kvs"
  using json_serialized [of v] by auto

lemma SerializeJSONArray_nonempty: "jsons vs \<Longrightarrow> vs \<noteq> [] \<Longrightarrow> SerializeJSONArray vs \<noteq> []"
  by (cases vs) (simp_all add: SerializeJSONArray_Cons)

lemma SerializeJSONObject_nonempty:
  assumes "json_members kvs" and "kvs \<noteq> []"
  shows "SerializeJSONObject kvs \<noteq> []"
proof (cases kvs)
  case Nil
  with assms(2) show ?thesis by simp
next
  case (Cons kv kvs')
  obtain k v where kv: "kv = (k, v)" by (cases kv)
  with Cons assms(1) have "json v" by simp
  then obtain t where "SerializeJSONProperty v = Some t"
    using json_serialized by blast
  with Cons kv show ?thesis by simp
qed

subsection \<open>Values\<close>

lemma round_trip_value:
  "json v \<Longrightarrow>
     \<exists>t. SerializeJSONProperty v = Some t \<and> value_text t \<and>
         (\<forall>n rest. length t < n \<longrightarrow> delimited rest \<longrightarrow>
                   parse_value n (t @ rest) = Some (v, rest))"
  "jsons vs \<Longrightarrow> vs \<noteq> [] \<Longrightarrow>
     value_text (join [0x2C] (SerializeJSONArray vs)) \<and>
     (\<forall>n rest. length (join [0x2C] (SerializeJSONArray vs)) + 1 < n \<longrightarrow>
               parse_elements n (join [0x2C] (SerializeJSONArray vs) @ 0x5D # rest) =
               Some (vs, rest))"
  "json_members kvs \<Longrightarrow> kvs \<noteq> [] \<Longrightarrow>
     join [0x2C] (SerializeJSONObject kvs) \<noteq> [] \<and>
     hd (join [0x2C] (SerializeJSONObject kvs)) = 0x22 \<and>
     (\<forall>n rest. length (join [0x2C] (SerializeJSONObject kvs)) + 1 < n \<longrightarrow>
               parse_members n (join [0x2C] (SerializeJSONObject kvs) @ 0x7D # rest) =
               Some (kvs, rest))"
proof (induction v and vs and kvs rule: json_jsons_json_members.induct)
  case 1
  then show ?case by simp
next
  case 2
  have "parse_value n (ascii ''null'' @ rest) = Some (JNull, rest)" if "length (ascii ''null'') < n" for n rest
    using that by (cases n) (simp_all add: parse_value_null)
  then show ?case by (simp add: value_text_atoms del: length_ascii)
next
  case (3 b)
  have "parse_value n (ascii ''true'' @ rest) = Some (JBool True, rest)" if "0 < n" for n rest
    using that by (cases n) (simp_all add: parse_value_true)
  moreover have "parse_value n (ascii ''false'' @ rest) = Some (JBool False, rest)" if "0 < n" for n rest
    using that by (cases n) (simp_all add: parse_value_false)
  ultimately show ?case by (cases b) (simp_all add: value_text_atoms)
next
  case (4 i)
  have "parse_value n (Number_toString i @ rest) = Some (JNum i, rest)"
    if "length (Number_toString i) < n" "delimited rest" for n rest
    using that by (cases n) (simp_all add: parse_value_number)
  then show ?case by (simp add: value_text_atoms)
next
  case (5 s)
  have "parse_value n (QuoteJSONString s @ rest) = Some (JStr s, rest)"
    if "length (QuoteJSONString s) < n" for n rest
    using that by (cases n) (simp_all add: parse_value_string)
  then show ?case by (simp add: value_text_atoms)
next
  case (6 vs)
  let ?e = "join [0x2C] (SerializeJSONArray vs)"
  have "parse_value n ((0x5B # ?e @ [0x5D]) @ rest) = Some (JArr vs, rest)"
    if n: "length (0x5B # ?e @ [0x5D]) < n" for n rest
  proof -
    from n obtain m where m: "n = Suc m" and len: "length ?e + 1 < m"
      by (cases n) simp_all
    show ?thesis
    proof (cases "vs = []")
      case True
      then show ?thesis by (simp add: m parse_value_array_empty)
    next
      case False
      with 6 have e: "value_text ?e"
        and p: "parse_elements m (?e @ 0x5D # rest) = Some (vs, rest)"
        using len by simp_all
      from parse_value_array [OF e, of m "0x5D # rest"] p show ?thesis
        by (simp add: m)
    qed
  qed
  then show ?case by (simp add: value_text_atoms)
next
  case (7 kvs)
  let ?e = "join [0x2C] (SerializeJSONObject kvs)"
  from 7(2) have d: "distinct (map fst kvs)" and j: "json_members kvs" by simp_all
  from d have f: "foldl CreateDataProperty [] kvs = kvs"
    using foldl_CreateDataProperty [of "[]" kvs] by simp
  have "parse_value n ((0x7B # ?e @ [0x7D]) @ rest) = Some (JObj kvs, rest)"
    if n: "length (0x7B # ?e @ [0x7D]) < n" for n rest
  proof -
    from n obtain m where m: "n = Suc m" and len: "length ?e + 1 < m"
      by (cases n) simp_all
    show ?thesis
    proof (cases "kvs = []")
      case True
      then show ?thesis by (simp add: m parse_value_object_empty)
    next
      case False
      with 7(1) [OF j] have e: "?e \<noteq> []" "hd ?e = 0x22"
        and p: "parse_members m (?e @ 0x7D # rest) = Some (kvs, rest)"
        using len by simp_all
      from parse_value_object [OF e, of m "0x7D # rest"] p f show ?thesis
        by (simp add: m)
    qed
  qed
  then show ?case by (simp add: value_text_atoms)
next
  case 8
  then show ?case by simp
next
  case (9 v vs)
  from 9(3) have jv: "json v" and jvs: "jsons vs" by simp_all
  from 9(1) [OF jv] obtain t where
    t: "SerializeJSONProperty v = Some t" "value_text t"
    and pv: "\<And>n rest. length t < n \<Longrightarrow> delimited rest \<Longrightarrow> parse_value n (t @ rest) = Some (v, rest)"
    by blast
  have s: "SerializeJSONArray (v # vs) = t # SerializeJSONArray vs"
    using t(1) by simp
  show ?case
  proof (cases "vs = []")
    case True
    have "parse_elements n (t @ 0x5D # rest) = Some ([v], rest)" if "length t + 1 < n" for n rest
    proof -
      from that obtain m where m: "n = Suc m" and len: "length t < m"
        by (cases n) simp_all
      have "parse_value m (t @ 0x5D # rest) = Some (v, 0x5D # rest)"
        using len by (rule pv) (simp add: delimited_def)
      then show ?thesis unfolding m by (rule parse_elements_last)
    qed
    with True t(2) show ?thesis by (simp add: t(1))
  next
    case False
    let ?e = "join [0x2C] (SerializeJSONArray vs)"
    from False jvs have ne: "SerializeJSONArray vs \<noteq> []"
      by (simp add: SerializeJSONArray_nonempty)
    then have e: "join [0x2C] (SerializeJSONArray (v # vs)) = t @ 0x2C # ?e"
      by (simp add: t(1) join_Cons)
    from 9(2) [OF jvs False] have
      pe: "\<And>n rest. length ?e + 1 < n \<Longrightarrow> parse_elements n (?e @ 0x5D # rest) = Some (vs, rest)"
      by blast
    have "parse_elements n ((t @ 0x2C # ?e) @ 0x5D # rest) = Some (v # vs, rest)"
      if "length (t @ 0x2C # ?e) + 1 < n" for n rest
    proof -
      from that obtain m where m: "n = Suc m" and len: "length t < m" "length ?e + 1 < m"
        by (cases n) simp_all
      have "parse_value m (t @ 0x2C # (?e @ 0x5D # rest)) = Some (v, 0x2C # (?e @ 0x5D # rest))"
        using len(1) by (rule pv) (simp add: delimited_def)
      from parse_elements_more [OF this] pe [OF len(2), of rest] show ?thesis
        by (simp add: m)
    qed
    moreover from t(2) have "value_text (t @ 0x2C # ?e)"
      by (cases t) (simp_all add: value_text_def)
    ultimately show ?thesis by (simp only: e) simp
  qed
next
  case 10
  then show ?case by simp
next
  case (11 k v kvs)
  from 11(3) have jv: "json v" and jkvs: "json_members kvs" by simp_all
  from 11(1) [OF jv] obtain t where
    t: "SerializeJSONProperty v = Some t" "value_text t"
    and pv: "\<And>n rest. length t < n \<Longrightarrow> delimited rest \<Longrightarrow> parse_value n (t @ rest) = Some (v, rest)"
    by blast
  let ?m = "QuoteJSONString k @ 0x3A # t"
  have s: "SerializeJSONObject ((k, v) # kvs) = ?m # SerializeJSONObject kvs"
    using t(1) by simp
  have hd_m: "?m \<noteq> []" "hd (?m @ x) = 0x22" for x
    by (simp_all add: QuoteJSONString_def)
  have len_m: "length t < length ?m"
    by simp
  show ?case
  proof (cases "kvs = []")
    case True
    have "parse_members n (?m @ 0x7D # rest) = Some ([(k, v)], rest)" if "length ?m + 1 < n" for n rest
    proof -
      from that len_m obtain m where m: "n = Suc m" and len: "length t < m"
        by (cases n) simp_all
      have "parse_value m (t @ 0x7D # rest) = Some (v, 0x7D # rest)"
        using len by (rule pv) (simp add: delimited_def)
      from parse_members_last [OF this, of k] show ?thesis
        by (simp add: m)
    qed
    with True hd_m(1) hd_m(2) [of "[]"] show ?thesis by (simp add: t(1))
  next
    case False
    let ?e = "join [0x2C] (SerializeJSONObject kvs)"
    from False jkvs have ne: "SerializeJSONObject kvs \<noteq> []"
      by (simp add: SerializeJSONObject_nonempty)
    then have e: "join [0x2C] (SerializeJSONObject ((k, v) # kvs)) = ?m @ 0x2C # ?e"
      by (simp add: t(1) join_Cons)
    from 11(2) [OF jkvs False] have
      pe: "\<And>n rest. length ?e + 1 < n \<Longrightarrow> parse_members n (?e @ 0x7D # rest) = Some (kvs, rest)"
      by blast
    have "parse_members n ((?m @ 0x2C # ?e) @ 0x7D # rest) = Some ((k, v) # kvs, rest)"
      if "length (?m @ 0x2C # ?e) + 1 < n" for n rest
    proof -
      from that len_m obtain m where m: "n = Suc m" and len: "length t < m" "length ?e + 1 < m"
        by (cases n) simp_all
      have "parse_value m (t @ 0x2C # (?e @ 0x7D # rest)) = Some (v, 0x2C # (?e @ 0x7D # rest))"
        using len(1) by (rule pv) (simp add: delimited_def)
      from parse_members_more [OF this, of k] pe [OF len(2), of rest] show ?thesis
        by (simp add: m)
    qed
    with hd_m(2) [of "0x2C # ?e"] show ?thesis by (simp only: e) simp
  qed
qed

lemma ecma_round_trip: "json v \<Longrightarrow> JSON_serializable ecma v"
proof -
  assume "json v"
  from round_trip_value(1) [OF this] obtain t where
    t: "SerializeJSONProperty v = Some t"
    and p: "\<And>n rest. length t < n \<Longrightarrow> delimited rest \<Longrightarrow> parse_value n (t @ rest) = Some (v, rest)"
    by blast
  have "parse_value (2 * length t + 2) (t @ []) = Some (v, [])"
    by (rule p) (simp_all add: delimited_def)
  then have "ecma_parse t = Inr v"
    by (simp add: ecma_parse_def skip_ws_def)
  with t show ?thesis
    by (simp add: JSON_serializable_def ecma_def ecma_stringify_def)
qed

section \<open>Running the provider\<close>

text \<open>The definitions that evaluate a construction, an environment and an operation.\<close>

lemmas construction =
  constructor_def options_def default_to_def as_StoreType_def initStorage_def read_window_def
  setItem_def removeItem_def trim_def blank_def WhiteSpace_def LineTerminator_def ascii_def

lemmas environments =
  browser_def refusing_browser_def denying_browser_def server_def empty_storage_def
  refusing_storage_def with_item_def memory_provider_def local_provider_def fun_upd_idem

lemmas operations =
  setValue_def getValue_def removeValue_def serialize_def deserialize_def getKey_def
  getRaw_def setRaw_def remove_def getItem_def setItem_def removeItem_def ascii_def

lemma constructor_memory_t:
  "constructor browser (options ''memory'' ''t'') = Inr (memory_provider ''t'', browser)"
  by (simp add: construction environments)

lemma constructor_memory_t_padded:
  "constructor browser (options ''memory'' ''  t '') = Inr (memory_provider ''t'', browser)"
  by (simp add: construction environments)

lemma constructor_local_a:
  "constructor browser (options ''localStorage'' ''a'') = Inr (local_provider ''a'', browser)"
  by (simp add: construction environments)

lemma constructor_local_a_padded:
  "constructor browser (options ''localStorage'' '' a'') = Inr (local_provider ''a'', browser)"
  by (simp add: construction environments)

lemma constructor_refused:
  "constructor refusing_browser (options ''localStorage'' ''p'') = Inr (memory_provider ''p'', refusing_browser)"
  by (simp add: construction environments)

lemma constructor_server:
  "constructor server (options ''localStorage'' ''p'') = Inr (memory_provider ''p''\<lparr>isServer := True\<rparr>, server)"
  by (simp add: construction environments)

section \<open>The properties of the specification\<close>

subsection \<open>C1: round trip on the memory backend\<close>

text \<open>
  C1. On a provider whose active backend is memory, for every key \<open>k\<close> and every
  JSON-serializable value \<open>v\<close>, \<open>setValue(k, v)\<close> returns without touching the
  world, and \<open>getValue(k)\<close> on the provider it leaves then returns \<open>v\<close>. On the
  codec of this theory the values of \<open>json\<close> are all JSON-serializable
  (\<open>ecma_round_trip\<close>).
\<close>

theorem round_trip_memory:
  assumes "consistent p" and "storeType p = Memory" and "JSON_serializable P v"
  shows "\<exists>p'. setValue P p w k v = Inr (p', w) \<and> getValue P p' w k = Inr (v, p', w)"
proof -
  from assms(3) obtain s where s: "JSON_stringify P v = Inr (Some s)" "JSON_parse P s = Inr v"
    by (auto simp: JSON_serializable_def split: sum.splits option.splits)
  from setValue_memory [OF assms(1,2) s(1)] obtain m where
    m: "setValue P p w k v = Inr (p\<lparr>currentStorage := MapObj (m(getKey p (Some k) \<mapsto> Some s))\<rparr>, w)"
    by blast
  let ?p = "p\<lparr>currentStorage := MapObj (m(getKey p (Some k) \<mapsto> Some s))\<rparr>"
  have "getValue P ?p w k = Inr (v, ?p, w)"
    using assms(2) s(2) by (simp add: getValue_held held_def deserialize_def)
  with m show ?thesis by blast
qed

text \<open>
  The example of the specification: a memory provider with prefix \<open>t\<close>,
  \<open>setValue("a", {n: 1})\<close>, then \<open>getValue("a")\<close>.
\<close>

theorem round_trip_memory_witness:
  "consistent (memory_provider ''t'') \<and> storeType (memory_provider ''t'') = Memory \<and>
   JSON_serializable ecma (JObj [(ascii ''n'', JNum 1)]) \<and>
   (\<exists>p'. setValue ecma (memory_provider ''t'') browser (ascii ''a'') (JObj [(ascii ''n'', JNum 1)])
            = Inr (p', browser) \<and>
         getValue ecma p' browser (ascii ''a'') = Inr (JObj [(ascii ''n'', JNum 1)], p', browser))"
proof -
  have c: "consistent (memory_provider ''t'')"
    by (simp add: consistent_def memory_provider_def)
  have m: "storeType (memory_provider ''t'') = Memory"
    by (simp add: memory_provider_def)
  have s: "JSON_serializable ecma (JObj [(ascii ''n'', JNum 1)])"
    by (rule ecma_round_trip) simp
  from round_trip_memory [OF c m s, of browser "ascii ''a''"] c m s show ?thesis
    by simp
qed

subsection \<open>C2: prefix isolation\<close>

text \<open>
  C2, as amended. For every two providers whose stored prefixes (the prefix arguments
  after trimming) differ, and every key \<open>k\<close>, a \<open>setValue(k, v)\<close> through one
  provider is not observable by \<open>getValue(k)\<close> on the other: it returns the same
  result before and after the write, whatever store the two share.
\<close>

theorem prefix_isolation:
  assumes "consistent b" and "prefix a \<noteq> prefix b"
    and "setValue P a w k v = Inr (a', w')"
  shows "\<exists>r. getValue P b w k = Inr (r, b, w) \<and> getValue P b w' k = Inr (r, b, w')"
  using assms held_setValue_other [OF assms(3), of "getKey b (Some k)" b]
        getKey_prefix_neq [OF assms(2), of k]
  by (simp add: getValue_held)

theorem prefix_isolation_witness:
  "consistent (local_provider ''b'') \<and>
   prefix (local_provider ''a'') \<noteq> prefix (local_provider ''b'') \<and>
   setValue ecma (local_provider ''a'') browser (ascii ''x'') (JNum 1) =
     Inr (local_provider ''a'', with_item Local (ascii ''a:x'') (ascii ''1'') browser) \<and>
   (\<exists>r. getValue ecma (local_provider ''b'') browser (ascii ''x'') =
           Inr (r, local_provider ''b'', browser) \<and>
        getValue ecma (local_provider ''b'')
           (with_item Local (ascii ''a:x'') (ascii ''1'') browser) (ascii ''x'') =
           Inr (r, local_provider ''b'', with_item Local (ascii ''a:x'') (ascii ''1'') browser))"
proof -
  have c: "consistent (local_provider ''b'')"
    by (simp add: consistent_def local_provider_def web_type_def)
  have n: "prefix (local_provider ''a'') \<noteq> prefix (local_provider ''b'')"
    by (simp add: local_provider_def ascii_def)
  have "JSON_stringify ecma (JNum 1) = Inr (Some (ascii ''1''))"
    by code_simp
  then have s: "setValue ecma (local_provider ''a'') browser (ascii ''x'') (JNum 1) =
     Inr (local_provider ''a'', with_item Local (ascii ''a:x'') (ascii ''1'') browser)"
    by (simp add: operations environments)
  from prefix_isolation [OF c n s] c n s show ?thesis
    by simp
qed

text \<open>
  C2 as stated fails: the prefix arguments \<open>"a"\<close> and \<open>" a"\<close> are different strings,
  the constructor trims both to \<open>a\<close>, and the two providers on the same
  \<open>localStorage\<close> read each other's entries. Both constructions give the provider
  \<open>local_provider ''a''\<close>; the key \<open>x\<close> reads as \<open>null\<close> before the write through the
  first and as \<open>1\<close> after it.
\<close>

theorem prefix_isolation_counterexample:
  "ascii ''a'' \<noteq> ascii '' a'' \<and>
   constructor browser (options ''localStorage'' ''a'') = Inr (local_provider ''a'', browser) \<and>
   constructor browser (options ''localStorage'' '' a'') = Inr (local_provider ''a'', browser) \<and>
   getValue ecma (local_provider ''a'') browser (ascii ''x'') =
     Inr (JNull, local_provider ''a'', browser) \<and>
   setValue ecma (local_provider ''a'') browser (ascii ''x'') (JNum 1) =
     Inr (local_provider ''a'', with_item Local (ascii ''a:x'') (ascii ''1'') browser) \<and>
   getValue ecma (local_provider ''a'')
     (with_item Local (ascii ''a:x'') (ascii ''1'') browser) (ascii ''x'') =
     Inr (JNum 1, local_provider ''a'', with_item Local (ascii ''a:x'') (ascii ''1'') browser)"
proof -
  have s: "JSON_stringify ecma (JNum 1) = Inr (Some (ascii ''1''))"
    by code_simp
  have p: "JSON_parse ecma (ascii ''1'') = Inr (JNum 1)"
    by code_simp
  have "ascii ''a'' \<noteq> ascii '' a''"
    by (simp add: ascii_def)
  moreover have "constructor browser (options ''localStorage'' ''a'') =
      Inr (local_provider ''a'', browser)"
    by (simp add: construction environments)
  moreover have "constructor browser (options ''localStorage'' '' a'') =
      Inr (local_provider ''a'', browser)"
    by (simp add: construction environments)
  moreover have "getValue ecma (local_provider ''a'') browser (ascii ''x'') =
     Inr (JNull, local_provider ''a'', browser)"
    by (simp add: operations environments)
  moreover from s have "setValue ecma (local_provider ''a'') browser (ascii ''x'') (JNum 1) =
     Inr (local_provider ''a'', with_item Local (ascii ''a:x'') (ascii ''1'') browser)"
    by (simp add: operations environments)
  moreover from p have "getValue ecma (local_provider ''a'')
     (with_item Local (ascii ''a:x'') (ascii ''1'') browser) (ascii ''x'') =
     Inr (JNum 1, local_provider ''a'', with_item Local (ascii ''a:x'') (ascii ''1'') browser)"
    by (simp add: operations environments)
  ultimately show ?thesis by blast
qed

subsection \<open>C3: fallback to memory\<close>

text \<open>
  C3. For every construction in a browser that asks for a persistent backend whose probe
  write throws, the constructor returns a provider with the memory backend and an empty
  map, the world unchanged; and every sequence of calls on it whose values
  \<open>JSON.stringify\<close> accepts runs without an exception, keeps the memory backend and
  leaves the world unchanged.
\<close>

theorem probe_failure_falls_back_to_memory:
  assumes "has_window w" and "probe_write_throws w kind"
    and "as_StoreType (storeType_given opts) = Some (web_type kind)"
    and "is_string (prefix_given opts)"
  shows "\<exists>p. constructor w opts = Inr (p, w) \<and> storeType p = Memory \<and>
             currentStorage p = MapObj Map.empty \<and>
             (\<forall>cs. list_all (encodable P) cs \<longrightarrow>
                   (\<exists>p'. run_calls P p w cs = Inr (p', w) \<and> storeType p' = Memory))"
proof -
  from constructor_probe_fails [OF assms] obtain p where
    p: "constructor w opts = Inr (p, w)" "storeType p = Memory" "currentStorage p = MapObj Map.empty"
    by blast
  then have "consistent p" by (simp add: consistent_def)
  with p run_calls_memory [of p P _ w] show ?thesis by blast
qed

theorem probe_failure_falls_back_to_memory_witness:
  "has_window refusing_browser \<and> probe_write_throws refusing_browser Local \<and>
   as_StoreType (storeType_given (options ''localStorage'' ''p'')) = Some (web_type Local) \<and>
   is_string (prefix_given (options ''localStorage'' ''p'')) \<and>
   (\<exists>p. constructor refusing_browser (options ''localStorage'' ''p'') = Inr (p, refusing_browser) \<and>
        storeType p = Memory \<and> currentStorage p = MapObj Map.empty \<and>
        (\<forall>cs. list_all (encodable ecma) cs \<longrightarrow>
              (\<exists>p'. run_calls ecma p refusing_browser cs = Inr (p', refusing_browser) \<and>
                    storeType p' = Memory)))"
proof -
  have w: "has_window refusing_browser"
    by (simp add: refusing_browser_def)
  have t: "probe_write_throws refusing_browser Local"
    by (simp add: probe_write_throws_def refusing_browser_def refusing_storage_def)
  have s: "as_StoreType (storeType_given (options ''localStorage'' ''p'')) = Some (web_type Local)"
    by (simp add: as_StoreType_def storeType_given_def options_def default_to_def web_type_def ascii_def)
  have f: "is_string (prefix_given (options ''localStorage'' ''p''))"
    by (simp add: prefix_given_def options_def default_to_def)
  from probe_failure_falls_back_to_memory [OF w t s f, of ecma] w t s f show ?thesis
    by simp
qed

subsection \<open>C4: when the constructor throws\<close>

text \<open>
  C4. The claim is that the constructor throws exactly for an unrecognised store type or
  a prefix that is not a string, whatever the persistent store does. The constructor
  breaks it where reading \<open>window.localStorage\<close> itself throws: \<open>#initStorage\<close> calls
  the factory outside the \<open>try\<close> of the probe, so the SecurityError leaves the
  constructor, for a supported store type and a string prefix.
\<close>

theorem constructor_throws_when_storage_access_denied:
  "constructor denying_browser (options ''localStorage'' ''p'') = Inl SecurityError"
  by (simp add: construction environments)

subsection \<open>C5: key derivation\<close>

text \<open>
  C5, as amended. The derived key is the prefix when no key is given and when the given
  key is the empty string; for every non-empty key it is \<open>prefix:key\<close> when the prefix
  is non-empty and the key unchanged when the prefix is empty.
\<close>

theorem getKey_derivation:
  "getKey p None = prefix p \<and> getKey p (Some []) = prefix p \<and>
   (k \<noteq> [] \<longrightarrow> getKey p (Some k) = (if prefix p \<noteq> [] then prefix p @ ascii '':'' @ k else k))"
  by (simp add: getKey_def)

theorem getKey_derivation_witness:
  "ascii ''a'' \<noteq> [] \<and>
   getKey (memory_provider ''t'') None = ascii ''t'' \<and>
   getKey (memory_provider ''t'') (Some []) = ascii ''t'' \<and>
   getKey (memory_provider ''t'') (Some (ascii ''a'')) = ascii ''t:a'' \<and>
   getKey (memory_provider []) (Some (ascii ''a'')) = ascii ''a''"
  using getKey_derivation [of "memory_provider ''t''" "ascii ''a''"]
        getKey_derivation [of "memory_provider []" "ascii ''a''"]
  by (simp add: memory_provider_def ascii_def)

text \<open>
  C5 as stated fails for the empty string, which is a given key: with the prefix \<open>t\<close>
  the derived key is \<open>t\<close>, not \<open>t:\<close>.
\<close>

theorem getKey_derivation_counterexample:
  "prefix (memory_provider ''t'') \<noteq> [] \<and>
   getKey (memory_provider ''t'') (Some []) = ascii ''t'' \<and>
   getKey (memory_provider ''t'') (Some []) \<noteq> prefix (memory_provider ''t'') @ ascii '':'' @ []"
  by (simp add: getKey_def memory_provider_def ascii_def)

subsection \<open>C6: tolerance of texts that are not JSON\<close>

text \<open>
  C6. For every key whose derived key holds a raw string that \<open>JSON.parse\<close> rejects,
  \<open>getValue\<close> returns that string unchanged, without an exception.
\<close>

theorem non_JSON_tolerance:
  assumes "consistent p"
    and "held p w (getKey p (Some k)) = Some raw"
    and "JSON_parse P raw = Inl e"
  shows "getValue P p w k = Inr (JStr raw, p, w)"
  using assms by (simp add: getValue_held deserialize_def)

theorem non_JSON_tolerance_witness:
  "consistent (local_provider ''test-app'') \<and>
   held (local_provider ''test-app'')
     (with_item Local (ascii ''test-app:k'') (ascii ''hello'') browser)
     (getKey (local_provider ''test-app'') (Some (ascii ''k''))) = Some (ascii ''hello'') \<and>
   JSON_parse ecma (ascii ''hello'') = Inl SyntaxError \<and>
   getValue ecma (local_provider ''test-app'')
     (with_item Local (ascii ''test-app:k'') (ascii ''hello'') browser) (ascii ''k'') =
     Inr (JStr (ascii ''hello''), local_provider ''test-app'',
          with_item Local (ascii ''test-app:k'') (ascii ''hello'') browser)"
proof -
  have c: "consistent (local_provider ''test-app'')"
    by (simp add: consistent_def local_provider_def web_type_def)
  have h: "held (local_provider ''test-app'')
     (with_item Local (ascii ''test-app:k'') (ascii ''hello'') browser)
     (getKey (local_provider ''test-app'') (Some (ascii ''k''))) = Some (ascii ''hello'')"
    by (simp add: held_def getKey_def environments ascii_def)
  have e: "JSON_parse ecma (ascii ''hello'') = Inl SyntaxError"
    by code_simp
  from non_JSON_tolerance [OF c h e] c h e show ?thesis
    by simp
qed

subsection \<open>C7: misses\<close>

text \<open>
  C7, as amended. On a provider that alone writes its store, for every key \<open>k\<close> whose
  derived key had no entry in the store before the calls (as on every memory backend
  after construction) and that no call has set since, or that was set and then removed
  by \<open>removeValue(k)\<close>, \<open>getValue(k)\<close> returns \<open>null\<close> without an exception.
\<close>

theorem miss_law:
  assumes "consistent p" and "run_calls P p w cs = Inr (p', w')"
    and "unset k cs (held p w (getKey p (Some k)) = None)"
  shows "getValue P p' w' k = Inr (JNull, p', w')"
proof -
  from held_run_calls [OF assms] have
    "consistent p'" and "prefix p' = prefix p" and "held p' w' (getKey p (Some k)) = None"
    by simp_all
  then show ?thesis
    by (simp add: getValue_held getKey_cong [of p' p] deserialize_def)
qed

text \<open>
  The example of the specification: \<open>setValue("a", {n: 1})\<close>, then \<open>removeValue("a")\<close>,
  on a memory provider with prefix \<open>t\<close>.
\<close>

theorem miss_law_witness:
  "consistent (memory_provider ''t'') \<and>
   run_calls ecma (memory_provider ''t'') browser
     [SetValue (ascii ''a'') (JObj [(ascii ''n'', JNum 1)]), RemoveValue (ascii ''a'')] =
     Inr (memory_provider ''t'', browser) \<and>
   unset (ascii ''a'')
     [SetValue (ascii ''a'') (JObj [(ascii ''n'', JNum (1::int))]), RemoveValue (ascii ''a'')]
     (held (memory_provider ''t'') browser
        (getKey (memory_provider ''t'') (Some (ascii ''a''))) = None) \<and>
   getValue ecma (memory_provider ''t'') browser (ascii ''a'') =
     Inr (JNull, memory_provider ''t'', browser)"
proof -
  have c: "consistent (memory_provider ''t'')"
    by (simp add: consistent_def memory_provider_def)
  have "JSON_stringify ecma (JObj [(ascii ''n'', JNum 1)]) = Inr (Some (ascii ''{\"n\":1}''))"
    by code_simp
  then have r: "run_calls ecma (memory_provider ''t'') browser
     [SetValue (ascii ''a'') (JObj [(ascii ''n'', JNum 1)]), RemoveValue (ascii ''a'')] =
     Inr (memory_provider ''t'', browser)"
    by (simp add: operations environments)
  have u: "unset (ascii ''a'')
     [SetValue (ascii ''a'') (JObj [(ascii ''n'', JNum (1::int))]), RemoveValue (ascii ''a'')]
     (held (memory_provider ''t'') browser
        (getKey (memory_provider ''t'') (Some (ascii ''a''))) = None)"
    by simp
  from miss_law [OF c r u] c r u show ?thesis
    by simp
qed

text \<open>
  C7 as stated fails on a persistent backend: the store may hold an entry under the
  derived key that this provider never set. Here \<open>localStorage\<close> holds \<open>1\<close> under
  \<open>test-app:k\<close> when the provider is constructed, and \<open>getValue("k")\<close> returns \<open>1\<close>.
\<close>

theorem miss_law_counterexample:
  "constructor (with_item Local (ascii ''test-app:k'') (ascii ''1'') browser)
     (options ''localStorage'' ''test-app'') =
     Inr (local_provider ''test-app'', with_item Local (ascii ''test-app:k'') (ascii ''1'') browser) \<and>
   getValue ecma (local_provider ''test-app'')
     (with_item Local (ascii ''test-app:k'') (ascii ''1'') browser) (ascii ''k'') =
     Inr (JNum 1, local_provider ''test-app'',
          with_item Local (ascii ''test-app:k'') (ascii ''1'') browser)"
proof -
  have p: "JSON_parse ecma (ascii ''1'') = Inr (JNum 1)"
    by code_simp
  have "constructor (with_item Local (ascii ''test-app:k'') (ascii ''1'') browser)
     (options ''localStorage'' ''test-app'') =
     Inr (local_provider ''test-app'', with_item Local (ascii ''test-app:k'') (ascii ''1'') browser)"
    by (simp add: construction environments)
  moreover from p have "getValue ecma (local_provider ''test-app'')
     (with_item Local (ascii ''test-app:k'') (ascii ''1'') browser) (ascii ''k'') =
     Inr (JNum 1, local_provider ''test-app'',
          with_item Local (ascii ''test-app:k'') (ascii ''1'') browser)"
    by (simp add: operations environments)
  ultimately show ?thesis by blast
qed

subsection \<open>C8: the prefix is trimmed\<close>

text \<open>
  C8. The constructor stores the prefix argument with the blank code units at both ends
  removed; so two providers whose prefix arguments differ only in the blanks around
  the same text (an all-blank argument and the empty string among them) derive the same
  storage key for every key.
\<close>

theorem prefix_trimmed:
  assumes "list_all blank l1" and "list_all blank r1"
    and "list_all blank l2" and "list_all blank r2"
    and "prefix_opt o1 = JStr (l1 @ s @ r1)" and "prefix_opt o2 = JStr (l2 @ s @ r2)"
    and "constructor w1 o1 = Inr (p1, w1')" and "constructor w2 o2 = Inr (p2, w2')"
  shows "prefix p1 = trim (l1 @ s @ r1) \<and> prefix p2 = trim (l2 @ s @ r2) \<and>
         (\<forall>key. getKey p1 key = getKey p2 key)"
proof -
  from constructor_prefix [OF assms(7)] assms(5) have p1: "prefix p1 = trim (l1 @ s @ r1)"
    by (simp add: prefix_given_def default_to_def)
  from constructor_prefix [OF assms(8)] assms(6) have p2: "prefix p2 = trim (l2 @ s @ r2)"
    by (simp add: prefix_given_def default_to_def)
  have "prefix p1 = prefix p2"
    using p1 p2 trim_surround [of l1 r1 s] trim_surround [of l2 r2 s] assms(1-4)
    by (simp add: list_all_iff)
  with p1 p2 show ?thesis by (simp add: getKey_cong [of p1 p2])
qed

theorem prefix_trimmed_witness:
  "list_all blank (ascii ''  '') \<and> list_all blank (ascii '' '') \<and> list_all blank [] \<and>
   prefix_opt (options ''memory'' ''  t '') = JStr (ascii ''  '' @ ascii ''t'' @ ascii '' '') \<and>
   prefix_opt (options ''memory'' ''t'') = JStr ([] @ ascii ''t'' @ []) \<and>
   constructor browser (options ''memory'' ''  t '') = Inr (memory_provider ''t'', browser) \<and>
   constructor browser (options ''memory'' ''t'') = Inr (memory_provider ''t'', browser) \<and>
   prefix (memory_provider ''t'') = trim (ascii ''  '' @ ascii ''t'' @ ascii '' '') \<and>
   prefix (memory_provider ''t'') = trim ([] @ ascii ''t'' @ [])"
proof -
  have b: "list_all blank (ascii ''  '')" "list_all blank (ascii '' '')" "list_all blank []"
    by (simp_all add: ascii_def blank_def WhiteSpace_def)
  have o1: "prefix_opt (options ''memory'' ''  t '') = JStr (ascii ''  '' @ ascii ''t'' @ ascii '' '')"
    by (simp add: options_def ascii_def)
  have o2: "prefix_opt (options ''memory'' ''t'') = JStr ([] @ ascii ''t'' @ [])"
    by (simp add: options_def)
  have c1: "constructor browser (options ''memory'' ''  t '') = Inr (memory_provider ''t'', browser)"
    by (simp add: construction environments)
  have c2: "constructor browser (options ''memory'' ''t'') = Inr (memory_provider ''t'', browser)"
    by (simp add: construction environments)
  from prefix_trimmed [OF b(1,2) b(3) b(3) o1 o2 c1 c2] b o1 o2 c1 c2 show ?thesis
    by blast
qed

subsection \<open>C9: a stored null reads as a miss\<close>

text \<open>
  C9. On a platform whose JSON text of \<open>null\<close> is \<open>null\<close>, for every key \<open>k\<close>, after a
  \<open>setValue(k, null)\<close> that returned, \<open>getValue(k)\<close> returns \<open>null\<close>: what it returns
  on any provider whose store has no entry under the derived key of \<open>k\<close>.
\<close>

theorem null_reads_as_miss:
  assumes "consistent p"
    and "JSON_stringify P JNull = Inr (Some (ascii ''null''))"
    and "JSON_parse P (ascii ''null'') = Inr JNull"
    and "setValue P p w k JNull = Inr (p', w')"
  shows "getValue P p' w' k = Inr (JNull, p', w') \<and>
         (\<forall>q u. consistent q \<and> held q u (getKey q (Some k)) = None \<longrightarrow>
                getValue P q u k = Inr (JNull, q, u))"
proof -
  from held_setValue_same [OF assms(1,2,4)] have
    "consistent p'" and "prefix p' = prefix p" and "held p' w' (getKey p (Some k)) = Some (ascii ''null'')"
    by simp_all
  then have "getValue P p' w' k = Inr (JNull, p', w')"
    using assms(3) by (simp add: getValue_held getKey_cong [of p' p] deserialize_def)
  then show ?thesis
    by (simp add: getValue_held deserialize_def)
qed

theorem null_reads_as_miss_witness:
  "consistent (local_provider ''a'') \<and>
   JSON_stringify ecma JNull = Inr (Some (ascii ''null'')) \<and>
   JSON_parse ecma (ascii ''null'') = Inr JNull \<and>
   setValue ecma (local_provider ''a'') browser (ascii ''x'') JNull =
     Inr (local_provider ''a'', with_item Local (ascii ''a:x'') (ascii ''null'') browser) \<and>
   getValue ecma (local_provider ''a'')
     (with_item Local (ascii ''a:x'') (ascii ''null'') browser) (ascii ''x'') =
     Inr (JNull, local_provider ''a'', with_item Local (ascii ''a:x'') (ascii ''null'') browser) \<and>
   held (local_provider ''a'') browser (getKey (local_provider ''a'') (Some (ascii ''x''))) = None \<and>
   getValue ecma (local_provider ''a'') browser (ascii ''x'') =
     Inr (JNull, local_provider ''a'', browser)"
proof -
  have c: "consistent (local_provider ''a'')"
    by (simp add: consistent_def local_provider_def web_type_def)
  have s: "JSON_stringify ecma JNull = Inr (Some (ascii ''null''))"
    by code_simp
  have p: "JSON_parse ecma (ascii ''null'') = Inr JNull"
    by code_simp
  from s have v: "setValue ecma (local_provider ''a'') browser (ascii ''x'') JNull =
     Inr (local_provider ''a'', with_item Local (ascii ''a:x'') (ascii ''null'') browser)"
    by (simp add: operations environments)
  have h: "held (local_provider ''a'') browser
     (getKey (local_provider ''a'') (Some (ascii ''x''))) = None"
    by (simp add: held_def getKey_def environments)
  from null_reads_as_miss [OF c s p v] c s p v h show ?thesis
    by simp
qed

subsection \<open>C10: reading does not write\<close>

text \<open>
  C10. For every state of a provider and every key, \<open>getValue\<close> returns a value and
  leaves the provider and the world, and so every key-to-string mapping, as they were.
\<close>

theorem getValue_read_only:
  assumes "consistent p"
  shows "\<exists>v. getValue P p w k = Inr (v, p, w)"
  using assms by (simp add: getValue_held)

theorem getValue_read_only_witness:
  "consistent (memory_provider ''t'') \<and>
   (\<exists>v. getValue ecma (memory_provider ''t'') browser (ascii ''a'') =
          Inr (v, memory_provider ''t'', browser))"
proof -
  have c: "consistent (memory_provider ''t'')"
    by (simp add: consistent_def memory_provider_def)
  from getValue_read_only [OF c] c show ?thesis
    by simp
qed

end
